theory Spec2Isabelle
  imports Complex_Main "HOL-Library.Monad_Syntax"
begin

section \<open>Strings\<close>

text \<open>
  Python strings are modelled as \<^typ>\<open>string\<close>; the text handled here (HTML, URL paths,
  count strings) is taken to be ASCII, one \<^typ>\<open>char\<close> per code point.
\<close>

fun startswith :: "string \<Rightarrow> string \<Rightarrow> bool" where
  "startswith s [] = True"
| "startswith [] (p # ps) = False"
| "startswith (c # cs) (p # ps) = (c = p \<and> startswith cs ps)"

text \<open>\<open>str_in sub s\<close> is Python's \<^verbatim>\<open>sub in s\<close> on two strings.\<close>

fun str_in :: "string \<Rightarrow> string \<Rightarrow> bool" where
  "str_in sub [] = (sub = [])"
| "str_in sub (c # cs) = (startswith (c # cs) sub \<or> str_in sub cs)"

definition lower_char :: "char \<Rightarrow> char" where
  "lower_char c =
     (if (65::nat) \<le> of_char c \<and> of_char c \<le> (90::nat)
      then char_of (of_char c + (32::nat)) else c)"

definition lower :: "string \<Rightarrow> string" where
  "lower s = map lower_char s"

section \<open>Exceptions\<close>

datatype exn =
    HTTPStatusError int
  | ConnectError
  | TimeoutException
  | RetryableError string
  | BlockDetectedError string string
  | ParserError string
  | AttributeError
  | TypeError
  | KeyError
  | IndexError
  | ValueError
  | OverflowError
  | ValidationError

section \<open>Block detection (client.py)\<close>

definition BLOCK_PATTERNS :: "(string \<times> string list) list" where
  "BLOCK_PATTERNS =
     [(''login_required'',
         [''Login required'', ''Please wait a few minutes before you try again'']),
      (''challenge_required'', [''checkpoint_required'']),
      (''not_found'', [''Page not found'', ''Sorry, this page isn'']),
      (''rate_limited'', [''Please wait a few minutes'', ''rate limit''])]"

definition og_title_marker :: string where
  \<open>og_title_marker = ''property="og:title"''\<close>

definition og_description_marker :: string where
  \<open>og_description_marker = ''property="og:description"''\<close>

text \<open>The inner loop over the patterns of one block type: the first pattern found.\<close>

fun match_patterns :: "string \<Rightarrow> string list \<Rightarrow> string option" where
  "match_patterns html_lower [] = None"
| "match_patterns html_lower (p # ps) =
     (if str_in (lower p) html_lower then Some p else match_patterns html_lower ps)"

text \<open>The outer loop over the block table, in the table's order.\<close>

fun scan_block_patterns :: "string \<Rightarrow> (string \<times> string list) list \<Rightarrow> exn option" where
  "scan_block_patterns html_lower [] = None"
| "scan_block_patterns html_lower ((block_type, patterns) # rest) =
     (case match_patterns html_lower patterns of
        Some p \<Rightarrow> Some (BlockDetectedError block_type (''Pattern matched: '' @ p))
      | None \<Rightarrow> scan_block_patterns html_lower rest)"

text \<open>
  \<open>check_for_blocks url_path html\<close> is \<^verbatim>\<open>_check_for_blocks\<close>, with the path of the
  response URL and the body as arguments. \<open>None\<close> is the normal return, \<open>Some e\<close>
  is the exception raised.
\<close>

definition check_for_blocks :: "string \<Rightarrow> string \<Rightarrow> exn option" where
  "check_for_blocks url_path html =
     (if str_in ''/accounts/login'' url_path
        then Some (BlockDetectedError ''login_required'' ''Redirected to login page'')
      else if str_in ''/challenge'' url_path
        then Some (BlockDetectedError ''challenge_required'' ''Challenge/verification required'')
      else if str_in og_title_marker html \<and> str_in og_description_marker html
        then None
      else (case scan_block_patterns (lower html) BLOCK_PATTERNS of
              Some e \<Rightarrow> Some e
            | None \<Rightarrow>
                if length html < 1000 \<and> \<not> str_in ''username'' html
                then Some (RetryableError ''Empty or minimal response received'')
                else None))"

section \<open>Retry and backoff (utils/retry.py)\<close>















section \<open>Numbers from strings\<close>

text \<open>
  A Python float is a finite value, an infinity or NaN. Finite values are kept as exact
  rationals: rounding to the nearest binary64 value is not modelled, overflow to an
  infinity is (\<open>float_overflow\<close> is the least magnitude that rounds to infinity).
\<close>

datatype pyfloat = Finite rat | PosInf | NegInf | NaN

definition float_overflow :: rat where
  "float_overflow = 2 ^ 1024 - 2 ^ 970"

definition mk_float :: "rat \<Rightarrow> pyfloat" where
  "mk_float q =
     (if float_overflow \<le> q then PosInf
      else if q \<le> - float_overflow then NegInf
      else Finite q)"

definition is_digit :: "char \<Rightarrow> bool" where
  "is_digit c = ((48::nat) \<le> of_char c \<and> of_char c \<le> (57::nat))"

definition digit_val :: "char \<Rightarrow> nat" where
  "digit_val c = of_char c - 48"

text \<open>The ASCII characters that \<^verbatim>\<open>str.strip()\<close>, \<^verbatim>\<open>int()\<close> and \<^verbatim>\<open>float()\<close> skip.\<close>

definition is_space :: "char \<Rightarrow> bool" where
  "is_space c = (((9::nat) \<le> of_char c \<and> of_char c \<le> (13::nat))
                 \<or> ((28::nat) \<le> of_char c \<and> of_char c \<le> (32::nat)))"

definition strip :: "string \<Rightarrow> string" where
  "strip s = rev (dropWhile is_space (rev (dropWhile is_space s)))"

definition endswith :: "string \<Rightarrow> string \<Rightarrow> bool" where
  "endswith s suffix = startswith (rev s) (rev suffix)"

text \<open>
  A run of digits in which single underscores may stand between two digits, as
  \<^verbatim>\<open>int()\<close> and \<^verbatim>\<open>float()\<close> accept it. The result is the value and the number of
  digits read.
\<close>

fun digits_rest :: "nat \<Rightarrow> nat \<Rightarrow> string \<Rightarrow> (nat \<times> nat) option" where
  "digits_rest v n [] = Some (v, n)"
| "digits_rest v n [c] =
     (if is_digit c then Some (10 * v + digit_val c, Suc n) else None)"
| "digits_rest v n (c # d # ds) =
     (if is_digit c then digits_rest (10 * v + digit_val c) (Suc n) (d # ds)
      else if c = CHR ''_'' \<and> is_digit d then digits_rest (10 * v + digit_val d) (Suc n) ds
      else None)"

definition digitpart :: "string \<Rightarrow> (nat \<times> nat) option" where
  "digitpart s =
     (case s of
        [] \<Rightarrow> None
      | c # cs \<Rightarrow> if is_digit c then digits_rest (digit_val c) 1 cs else None)"

definition split_sign :: "string \<Rightarrow> bool \<times> string" where
  "split_sign s =
     (case s of
        [] \<Rightarrow> (False, [])
      | c # cs \<Rightarrow>
          if c = CHR ''-'' then (True, cs)
          else if c = CHR ''+'' then (False, cs)
          else (False, s))"

text \<open>\<^verbatim>\<open>int(s)\<close> for a string \<open>s\<close>, base 10.\<close>

definition py_int_of_str :: "string \<Rightarrow> exn + int" where
  "py_int_of_str s =
     (case split_sign (strip s) of
        (neg, body) \<Rightarrow>
          (case digitpart body of
             None \<Rightarrow> Inl ValueError
           | Some (v, n) \<Rightarrow> Inr (if neg then - int v else int v)))"

text \<open>The text before the first character satisfying \<open>P\<close>, and the text after it, if any.\<close>

definition split_at :: "(char \<Rightarrow> bool) \<Rightarrow> string \<Rightarrow> string \<times> string option" where
  "split_at P s =
     (case dropWhile (\<lambda>c. \<not> P c) s of
        [] \<Rightarrow> (s, None)
      | c # rest \<Rightarrow> (takeWhile (\<lambda>c. \<not> P c) s, Some rest))"

definition float_mantissa :: "string \<Rightarrow> rat option" where
  "float_mantissa m =
     (case split_at (\<lambda>c. c = CHR ''.'') m of
        (ip, None) \<Rightarrow> map_option (\<lambda>(v, n). of_nat v) (digitpart ip)
      | (ip, Some fp) \<Rightarrow>
          if ip = [] \<and> fp = [] then None
          else (case (if ip = [] then Some (0, 0) else digitpart ip) of
                  None \<Rightarrow> None
                | Some (iv, k) \<Rightarrow>
                    (case (if fp = [] then Some (0, 0) else digitpart fp) of
                       None \<Rightarrow> None
                     | Some (fv, n) \<Rightarrow> Some (of_nat iv + of_nat fv / 10 ^ n))))"

definition float_exponent :: "string \<Rightarrow> int option" where
  "float_exponent e =
     (case split_sign e of
        (neg, body) \<Rightarrow>
          map_option (\<lambda>(v, n). if neg then - int v else int v) (digitpart body))"

definition scale10 :: "rat \<Rightarrow> int \<Rightarrow> rat" where
  "scale10 q x = (if 0 \<le> x then q * 10 ^ nat x else q / 10 ^ nat (- x))"

text \<open>\<^verbatim>\<open>float(s)\<close> for a string \<open>s\<close>.\<close>

definition py_float_of_str :: "string \<Rightarrow> exn + pyfloat" where
  "py_float_of_str s =
     (case split_sign (strip s) of
        (neg, body) \<Rightarrow>
          if lower body = ''inf'' \<or> lower body = ''infinity''
            then Inr (if neg then NegInf else PosInf)
          else if lower body = ''nan'' then Inr NaN
          else (case split_at (\<lambda>c. c = CHR ''e'' \<or> c = CHR ''E'') body of
                  (m, None) \<Rightarrow>
                    (case float_mantissa m of
                       None \<Rightarrow> Inl ValueError
                     | Some q \<Rightarrow> Inr (mk_float (if neg then - q else q)))
                | (m, Some e) \<Rightarrow>
                    (case float_mantissa m of
                       None \<Rightarrow> Inl ValueError
                     | Some q \<Rightarrow>
                         (case float_exponent e of
                            None \<Rightarrow> Inl ValueError
                          | Some x \<Rightarrow> Inr (mk_float (scale10 (if neg then - q else q) x))))))"

text \<open>The product of a float and an int.\<close>

definition float_times_int :: "pyfloat \<Rightarrow> int \<Rightarrow> pyfloat" where
  "float_times_int f m =
     (case f of
        Finite q \<Rightarrow> mk_float (q * of_int m)
      | PosInf \<Rightarrow> (if 0 < m then PosInf else if m < 0 then NegInf else NaN)
      | NegInf \<Rightarrow> (if 0 < m then NegInf else if m < 0 then PosInf else NaN)
      | NaN \<Rightarrow> NaN)"

text \<open>\<^verbatim>\<open>int(f)\<close> for a float \<open>f\<close>: truncation towards zero.\<close>

definition py_int_of_float :: "pyfloat \<Rightarrow> exn + int" where
  "py_int_of_float f =
     (case f of
        Finite q \<Rightarrow> Inr (if 0 \<le> q then \<lfloor>q\<rfloor> else \<lceil>q\<rceil>)
      | PosInf \<Rightarrow> Inl OverflowError
      | NegInf \<Rightarrow> Inl OverflowError
      | NaN \<Rightarrow> Inl ValueError)"

section \<open>Count strings (parsers.py, ProfileParser)\<close>

definition multipliers :: "(string \<times> int) list" where
  "multipliers = [(''K'', 1000), (''M'', 1000000), (''B'', 1000000000)]"

text \<open>\<^verbatim>\<open>except ValueError: return 0\<close>; any other exception propagates.\<close>

definition except_ValueError :: "exn + int \<Rightarrow> exn + int" where
  "except_ValueError r =
     (case r of Inl e \<Rightarrow> (if e = ValueError then Inr 0 else Inl e) | Inr n \<Rightarrow> Inr n)"

definition suffixed_count :: "string \<Rightarrow> int \<Rightarrow> exn + int" where
  "suffixed_count count_str mult =
     (case py_float_of_str (butlast count_str) of
        Inl e \<Rightarrow> Inl e
      | Inr f \<Rightarrow> py_int_of_float (float_times_int f mult))"

text \<open>The loop over the suffixes; \<open>None\<close> when it ends without returning.\<close>

fun suffix_loop :: "string \<Rightarrow> (string \<times> int) list \<Rightarrow> (exn + int) option" where
  "suffix_loop count_str [] = None"
| "suffix_loop count_str ((suffix, mult) # rest) =
     (if endswith count_str suffix
      then Some (except_ValueError (suffixed_count count_str mult))
      else suffix_loop count_str rest)"

definition parse_count_string :: "string \<Rightarrow> exn + int" where
  "parse_count_string count_str =
     (if count_str = [] then Inr 0
      else (let count_str' = filter (\<lambda>c. c \<noteq> CHR '','') (strip count_str)
            in case suffix_loop count_str' multipliers of
                 Some r \<Rightarrow> r
               | None \<Rightarrow> except_ValueError (py_int_of_str count_str')))"

section \<open>Values decoded from JSON\<close>

datatype json =
    JNull
  | JBool bool
  | JInt int
  | JFloat pyfloat
  | JStr string
  | JList "json list"
  | JDict "(string \<times> json) list"

text \<open>Truth value of a Python object, as tested by \<^verbatim>\<open>if x\<close>, \<^verbatim>\<open>not x\<close>, \<^verbatim>\<open>and\<close>, \<^verbatim>\<open>or\<close>.\<close>

fun truthy :: "json \<Rightarrow> bool" where
  "truthy JNull = False"
| "truthy (JBool b) = b"
| "truthy (JInt n) = (n \<noteq> 0)"
| "truthy (JFloat f) = (f \<noteq> Finite 0)"
| "truthy (JStr s) = (s \<noteq> [])"
| "truthy (JList xs) = (xs \<noteq> [])"
| "truthy (JDict kvs) = (kvs \<noteq> [])"

definition py_or :: "json \<Rightarrow> json \<Rightarrow> json" where
  "py_or a b = (if truthy a then a else b)"

definition py_and :: "json \<Rightarrow> json \<Rightarrow> json" where
  "py_and a b = (if truthy a then b else a)"

text \<open>\<^verbatim>\<open>x == k\<close> for an int literal \<open>k\<close>.\<close>

fun py_eq_int :: "json \<Rightarrow> int \<Rightarrow> bool" where
  "py_eq_int (JInt n) k = (n = k)"
| "py_eq_int (JFloat f) k = (f = Finite (of_int k))"
| "py_eq_int (JBool b) k = ((if b then 1 else 0) = k)"
| "py_eq_int _ k = False"

text \<open>Sequencing of steps that may raise: the first exception ends the computation.\<close>

definition seq :: "exn + 'a \<Rightarrow> ('a \<Rightarrow> exn + 'b) \<Rightarrow> exn + 'b" where
  "seq m f = (case m of Inl e \<Rightarrow> Inl e | Inr x \<Rightarrow> f x)"

text \<open>\<^verbatim>\<open>d.get(key, default)\<close> on the items of a dict.\<close>

definition dget :: "(string \<times> json) list \<Rightarrow> string \<Rightarrow> json \<Rightarrow> json" where
  "dget kvs k d = (case map_of kvs k of Some v \<Rightarrow> v | None \<Rightarrow> d)"

text \<open>\<^verbatim>\<open>x.get(key, default)\<close> on any value: only a dict has the method.\<close>

fun py_get :: "json \<Rightarrow> string \<Rightarrow> json \<Rightarrow> exn + json" where
  "py_get (JDict kvs) k d = Inr (dget kvs k d)"
| "py_get _ k d = Inl AttributeError"

text \<open>\<^verbatim>\<open>key in x\<close> for a string key.\<close>

fun py_in :: "string \<Rightarrow> json \<Rightarrow> exn + bool" where
  "py_in k (JDict kvs) = Inr (map_of kvs k \<noteq> None)"
| "py_in k (JList xs) = Inr (JStr k \<in> set xs)"
| "py_in k (JStr s) = Inr (str_in k s)"
| "py_in k _ = Inl TypeError"

text \<open>\<^verbatim>\<open>x[key]\<close> for a string key.\<close>

fun py_item :: "json \<Rightarrow> string \<Rightarrow> exn + json" where
  "py_item (JDict kvs) k = (case map_of kvs k of Some v \<Rightarrow> Inr v | None \<Rightarrow> Inl KeyError)"
| "py_item _ k = Inl TypeError"

text \<open>\<^verbatim>\<open>x[0]\<close>.\<close>

fun py_first :: "json \<Rightarrow> exn + json" where
  "py_first (JList (x # xs)) = Inr x"
| "py_first (JList []) = Inl IndexError"
| "py_first (JStr (c # cs)) = Inr (JStr [c])"
| "py_first (JStr []) = Inl IndexError"
| "py_first (JDict kvs) = Inl KeyError"
| "py_first _ = Inl TypeError"

text \<open>The elements that \<^verbatim>\<open>for y in x\<close> visits.\<close>

fun py_iter :: "json \<Rightarrow> exn + json list" where
  "py_iter (JList xs) = Inr xs"
| "py_iter (JStr s) = Inr (map (\<lambda>c. JStr [c]) s)"
| "py_iter (JDict kvs) = Inr (map (\<lambda>kv. JStr (fst kv)) kvs)"
| "py_iter _ = Inl TypeError"

section \<open>Library behaviour taken as a parameter\<close>

text \<open>
  The records of models.py are pydantic models. A value that already has the declared
  type of its field is accepted unchanged; what pydantic does with a value of another
  type (convert it or reject it, \<open>None\<close> here) is a parameter, and so is the text
  that \<^verbatim>\<open>str()\<close> gives for floats, lists and dicts.
\<close>

record pylib =
  repr_of :: "json \<Rightarrow> string"
  coerce_str :: "json \<Rightarrow> string option"
  coerce_int :: "json \<Rightarrow> int option"
  coerce_float :: "json \<Rightarrow> pyfloat option"
  coerce_bool :: "json \<Rightarrow> bool option"

fun nat_str :: "nat \<Rightarrow> string" where
  "nat_str n =
     (if n < 10 then [''0123456789'' ! n]
      else nat_str (n div 10) @ [''0123456789'' ! (n mod 10)])"

declare nat_str.simps [simp del]

definition int_str :: "int \<Rightarrow> string" where
  "int_str i = (if i < 0 then CHR ''-'' # nat_str (nat (- i)) else nat_str (nat i))"

text \<open>\<^verbatim>\<open>str(x)\<close>.\<close>

definition py_str :: "pylib \<Rightarrow> json \<Rightarrow> string" where
  "py_str L x =
     (case x of
        JStr s \<Rightarrow> s
      | JInt n \<Rightarrow> int_str n
      | JBool b \<Rightarrow> (if b then ''True'' else ''False'')
      | JNull \<Rightarrow> ''None''
      | _ \<Rightarrow> repr_of L x)"

definition v_str :: "pylib \<Rightarrow> json \<Rightarrow> string option" where
  "v_str L x = (case x of JStr s \<Rightarrow> Some s | _ \<Rightarrow> coerce_str L x)"

definition v_int :: "pylib \<Rightarrow> json \<Rightarrow> int option" where
  "v_int L x = (case x of JInt n \<Rightarrow> Some n | _ \<Rightarrow> coerce_int L x)"

definition v_float :: "pylib \<Rightarrow> json \<Rightarrow> pyfloat option" where
  "v_float L x = (case x of JFloat f \<Rightarrow> Some f | _ \<Rightarrow> coerce_float L x)"

definition v_bool :: "pylib \<Rightarrow> json \<Rightarrow> bool option" where
  "v_bool L x = (case x of JBool b \<Rightarrow> Some b | _ \<Rightarrow> coerce_bool L x)"

text \<open>A field declared \<^verbatim>\<open>Optional[T]\<close>.\<close>

definition v_optional :: "(json \<Rightarrow> 'a option) \<Rightarrow> json \<Rightarrow> 'a option option" where
  "v_optional v x = (case x of JNull \<Rightarrow> Some None | _ \<Rightarrow> map_option Some (v x))"

text \<open>A field declared \<^verbatim>\<open>list[T]\<close>, given a list.\<close>

fun v_list :: "(json \<Rightarrow> 'a option) \<Rightarrow> json list \<Rightarrow> 'a list option" where
  "v_list v [] = Some []"
| "v_list v (x # xs) =
     (case v x of
        None \<Rightarrow> None
      | Some y \<Rightarrow> (case v_list v xs of None \<Rightarrow> None | Some ys \<Rightarrow> Some (y # ys)))"

section \<open>Records (models.py)\<close>

text \<open>
  A \<^verbatim>\<open>datetime\<close> is represented by its seconds since the epoch. The fields
  \<^verbatim>\<open>scraped_at\<close> and \<^verbatim>\<open>scrape_completed_at\<close>, stamped from the clock, and the
  profile fields that no parser sets are left out.
\<close>

record Location =
  loc_id :: string
  loc_name :: string
  loc_slug :: "string option"

record ProfileData =
  user_id :: string
  username :: string
  full_name :: string
  biography :: string
  follower_count :: int
  following_count :: int
  posts_count :: int
  profile_pic_url :: string

record PostData =
  post_id :: string
  shortcode :: string
  caption :: "string option"
  like_count :: int
  comment_count :: int
  view_count :: "int option"
  timestamp :: int
  taken_at_datetime :: "int option"
  media_type :: string
  is_video :: bool
  video_duration :: "pyfloat option"
  media_urls :: "string list"
  thumbnail_url :: "string option"
  location :: "Location option"
  permalink :: string
  owner_username :: string
  owner_id :: string

record SessionTokens =
  app_id :: string
  csrf_token :: string
  asbd_id :: "string option"

record ScrapeResult =
  profile :: ProfileData
  posts :: "PostData list"
  total_posts_scraped :: nat
  has_more_posts :: bool
  errors :: "exn list"

text \<open>
  The keyword arguments of the \<^verbatim>\<open>PostData\<close> constructor, before validation. An
  argument that is not passed is \<open>None\<close> (\<open>arg_permalink\<close>, \<open>arg_taken_at_datetime\<close>).
\<close>

record PostData_args =
  arg_id :: string
  arg_shortcode :: json
  arg_caption :: json
  arg_like_count :: json
  arg_comment_count :: json
  arg_view_count :: json
  arg_timestamp :: json
  arg_taken_at_datetime :: "int option"
  arg_media_type :: string
  arg_is_video :: bool
  arg_video_duration :: json
  arg_media_urls :: "json list"
  arg_thumbnail_url :: json
  arg_location :: "Location option"
  arg_permalink :: "json option"
  arg_owner_username :: json
  arg_owner_id :: string

text \<open>\<^verbatim>\<open>super().__init__(**data)\<close>: validation of the fields against their types.\<close>

definition validate_PostData :: "pylib \<Rightarrow> PostData_args \<Rightarrow> PostData option" where
  "validate_PostData L a =
     do {
       sc \<leftarrow> v_str L (arg_shortcode a);
       cap \<leftarrow> v_optional (v_str L) (arg_caption a);
       lc \<leftarrow> v_int L (arg_like_count a);
       cc \<leftarrow> v_int L (arg_comment_count a);
       vc \<leftarrow> v_optional (v_int L) (arg_view_count a);
       ts \<leftarrow> v_int L (arg_timestamp a);
       vd \<leftarrow> v_optional (v_float L) (arg_video_duration a);
       mu \<leftarrow> v_list (v_str L) (arg_media_urls a);
       th \<leftarrow> v_optional (v_str L) (arg_thumbnail_url a);
       pl \<leftarrow> (case arg_permalink a of None \<Rightarrow> Some [] | Some x \<Rightarrow> v_str L x);
       ou \<leftarrow> v_str L (arg_owner_username a);
       Some \<lparr>post_id = arg_id a, shortcode = sc, caption = cap, like_count = lc,
             comment_count = cc, view_count = vc, timestamp = ts,
             taken_at_datetime = arg_taken_at_datetime a,
             media_type = arg_media_type a, is_video = arg_is_video a,
             video_duration = vd, media_urls = mu, thumbnail_url = th,
             location = arg_location a, permalink = pl, owner_username = ou,
             owner_id = arg_owner_id a\<rparr>
     }"

text \<open>\<^verbatim>\<open>datetime.utcfromtimestamp\<close>: years 1 to 9999 only.\<close>

definition utcfromtimestamp :: "int \<Rightarrow> exn + int" where
  "utcfromtimestamp ts =
     (if - 62135596800 \<le> ts \<and> ts \<le> 253402300799 then Inr ts else Inl ValueError)"

definition post_url :: "string \<Rightarrow> string" where
  "post_url sc = ''https://www.instagram.com/p/'' @ sc @ ''/''"

definition PostData_init :: "pylib \<Rightarrow> PostData_args \<Rightarrow> exn + PostData" where
  "PostData_init L a =
     (case validate_PostData L a of
        None \<Rightarrow> Inl ValidationError
      | Some p \<Rightarrow>
          (let p' = (if permalink p = [] \<and> shortcode p \<noteq> []
                     then p\<lparr>permalink := post_url (shortcode p)\<rparr> else p)
           in if timestamp p' \<noteq> 0 \<and> taken_at_datetime p' = None
              then seq (utcfromtimestamp (timestamp p'))
                     (\<lambda>d. Inr (p'\<lparr>taken_at_datetime := Some d\<rparr>))
              else Inr p'))"

definition Location_init :: "pylib \<Rightarrow> string \<Rightarrow> json \<Rightarrow> json \<Rightarrow> exn + Location" where
  "Location_init L i n s =
     (case v_str L n of
        None \<Rightarrow> Inl ValidationError
      | Some n' \<Rightarrow>
          (case v_optional (v_str L) s of
             None \<Rightarrow> Inl ValidationError
           | Some s' \<Rightarrow> Inr \<lparr>loc_id = i, loc_name = n', loc_slug = s'\<rparr>))"

section \<open>Token discovery (parsers.py, config.py)\<close>

text \<open>
  The three patterns of \<^verbatim>\<open>PATTERNS\<close> have the same shape: a literal text, then
  \<^verbatim>\<open>(\d+)"\<close>. Each is given by its literal text. At one position such a pattern
  matches when the literal is followed by a non-empty run of digits and a double quote;
  the run is the longest one, since a shorter run is followed by a digit.
\<close>

definition PATTERNS_app_id :: string where
  \<open>PATTERNS_app_id = ''"X-IG-App-ID":"''\<close>

definition PATTERNS_app_id_alt :: string where
  \<open>PATTERNS_app_id_alt = ''{"APP_ID":"''\<close>

definition PATTERNS_asbd_id :: string where
  \<open>PATTERNS_asbd_id = ''"X-ASBD-ID":"''\<close>

definition FALLBACK_app_id :: string where
  "FALLBACK_app_id = ''936619743392459''"

definition FALLBACK_asbd_id :: string where
  "FALLBACK_asbd_id = ''129477''"

definition match_here :: "string \<Rightarrow> string \<Rightarrow> string option" where
  "match_here lit s =
     (if startswith s lit
      then (let rest = drop (length lit) s;
                ds = takeWhile is_digit rest
            in if ds \<noteq> [] \<and> startswith (dropWhile is_digit rest) [CHR 0x22]
               then Some ds else None)
      else None)"

text \<open>\<^verbatim>\<open>re.search(pattern, s)\<close>: group 1 of the leftmost match, if there is one.\<close>

fun re_search :: "string \<Rightarrow> string \<Rightarrow> string option" where
  "re_search lit [] = match_here lit []"
| "re_search lit (c # cs) =
     (case match_here lit (c # cs) of
        Some ds \<Rightarrow> Some ds
      | None \<Rightarrow> re_search lit cs)"

definition extract_app_id :: "string \<Rightarrow> string" where
  "extract_app_id html =
     (case re_search PATTERNS_app_id html of
        Some g \<Rightarrow> g
      | None \<Rightarrow>
          (case re_search PATTERNS_app_id_alt html of
             Some g \<Rightarrow> g
           | None \<Rightarrow> FALLBACK_app_id))"

definition extract_asbd_id :: "string \<Rightarrow> string option" where
  "extract_asbd_id html =
     (case re_search PATTERNS_asbd_id html of
        Some g \<Rightarrow> Some g
      | None \<Rightarrow> Some FALLBACK_asbd_id)"

definition discover_all :: "string \<Rightarrow> string \<Rightarrow> SessionTokens" where
  "discover_all html csrf =
     \<lparr>app_id = extract_app_id html, csrf_token = csrf, asbd_id = extract_asbd_id html\<rparr>"

section \<open>Feed items (parsers.py, PostParser)\<close>

text \<open>
  The image part and the video part of \<^verbatim>\<open>_extract_media_urls\<close>, which the function
  applies to the item and to each carousel child: the URL appended, if any.
\<close>

definition own_image_url :: "json \<Rightarrow> exn + json option" where
  "own_image_url x =
     seq (py_in ''image_versions2'' x) (\<lambda>present.
       if \<not> present then Inr None
       else seq (py_item x ''image_versions2'') (\<lambda>iv.
              seq (py_get iv ''candidates'' (JList [])) (\<lambda>candidates.
                if truthy candidates
                then seq (py_first candidates) (\<lambda>c0.
                       seq (py_get c0 ''url'' (JStr [])) (\<lambda>u. Inr (Some u)))
                else Inr None)))"

definition own_video_url :: "json \<Rightarrow> exn + json option" where
  "own_video_url x =
     seq (py_in ''video_versions'' x) (\<lambda>present.
       if \<not> present then Inr None
       else seq (py_get x ''video_versions'' (JList [])) (\<lambda>video_versions.
              if truthy video_versions
              then seq (py_first video_versions) (\<lambda>v0.
                     seq (py_get v0 ''url'' (JStr [])) (\<lambda>u. Inr (Some u)))
              else Inr None))"

definition opt_list :: "'a option \<Rightarrow> 'a list" where
  "opt_list x = (case x of None \<Rightarrow> [] | Some u \<Rightarrow> [u])"

definition own_urls :: "json \<Rightarrow> exn + json list" where
  "own_urls x =
     seq (own_image_url x) (\<lambda>i.
       seq (own_video_url x) (\<lambda>v. Inr (opt_list i @ opt_list v)))"

text \<open>The loop over the carousel children.\<close>

fun carousel_urls :: "json list \<Rightarrow> exn + json list" where
  "carousel_urls [] = Inr []"
| "carousel_urls (child # rest) =
     seq (own_urls child) (\<lambda>us. seq (carousel_urls rest) (\<lambda>rs. Inr (us @ rs)))"

definition extract_media_urls :: "json \<Rightarrow> exn + json list" where
  "extract_media_urls item =
     seq (own_urls item) (\<lambda>us.
       seq (py_get item ''carousel_media'' (JList [])) (\<lambda>cm.
         seq (py_iter cm) (\<lambda>children.
           seq (carousel_urls children) (\<lambda>cs. Inr (us @ cs)))))"

text \<open>The \<^verbatim>\<open>if\<close>/\<^verbatim>\<open>elif\<close> chain on the media-type code and the product type.\<close>

definition resolve_media_type :: "json \<Rightarrow> json \<Rightarrow> string" where
  "resolve_media_type media_type_code product_type =
     (if py_eq_int media_type_code 8 then ''carousel''
      else if py_eq_int media_type_code 2
        then (if product_type = JStr ''clips'' then ''reel'' else ''video'')
      else ''image'')"

text \<open>
  \<^verbatim>\<open>parse_feed_item\<close>. Its first statement calls \<^verbatim>\<open>item.get\<close>, which raises
  unless the item is a dict; after it every \<^verbatim>\<open>item.get\<close> succeeds.
\<close>

definition parse_feed_item :: "pylib \<Rightarrow> json \<Rightarrow> string \<Rightarrow> exn + PostData" where
  "parse_feed_item L item owner_name =
     (case item of
        JDict kvs \<Rightarrow>
          (let pid = py_str L (dget kvs ''pk'' (dget kvs ''id'' (JStr [])));
               code = dget kvs ''code'' (JStr []);
               caption_obj = dget kvs ''caption'' JNull;
               cap = (case caption_obj of
                        JDict c \<Rightarrow> if c \<noteq> [] then dget c ''text'' JNull else JNull
                      | _ \<Rightarrow> JNull);
               likes = dget kvs ''like_count'' (JInt 0);
               comments = dget kvs ''comment_count'' (JInt 0);
               views = py_or (dget kvs ''play_count'' JNull) (dget kvs ''view_count'' JNull);
               taken_at = dget kvs ''taken_at'' (JInt 0);
               media_type_code = dget kvs ''media_type'' (JInt 1);
               product_type = dget kvs ''product_type'' (JStr []);
               mt = resolve_media_type media_type_code product_type;
               video = py_eq_int media_type_code 2
           in seq (extract_media_urls item) (\<lambda>urls.
              seq (own_image_url item) (\<lambda>thumb.
              seq (case dget kvs ''location'' JNull of
                     JDict l \<Rightarrow>
                       if l \<noteq> []
                       then seq (Location_init L
                                   (py_str L (dget l ''pk'' (dget l ''id'' (JStr []))))
                                   (dget l ''name'' (JStr [])) (dget l ''slug'' JNull))
                              (\<lambda>loc. Inr (Some loc))
                       else Inr None
                   | _ \<Rightarrow> Inr None) (\<lambda>loc.
              seq (py_get (dget kvs ''user'' (JDict [])) ''pk'' (JStr [])) (\<lambda>owner_pk.
              seq (if owner_name = []
                   then py_get (dget kvs ''user'' (JDict [])) ''username'' (JStr [])
                   else Inr (JStr owner_name)) (\<lambda>owner_name'.
              PostData_init L
                \<lparr>arg_id = pid, arg_shortcode = code, arg_caption = cap,
                 arg_like_count = likes, arg_comment_count = comments,
                 arg_view_count = views, arg_timestamp = taken_at,
                 arg_taken_at_datetime = None, arg_media_type = mt, arg_is_video = video,
                 arg_video_duration = dget kvs ''video_duration'' JNull,
                 arg_media_urls = urls,
                 arg_thumbnail_url = (case thumb of None \<Rightarrow> JStr [] | Some u \<Rightarrow> u),
                 arg_location = loc, arg_permalink = None,
                 arg_owner_username = owner_name',
                 arg_owner_id = py_str L owner_pk\<rparr>))))))
      | _ \<Rightarrow> Inl AttributeError)"

text \<open>
  The loop of \<^verbatim>\<open>parse_feed_response\<close> over the items: a post is appended for each
  item that parses, an item whose parsing raises is logged and skipped.
\<close>

fun parse_items :: "pylib \<Rightarrow> string \<Rightarrow> json list \<Rightarrow> PostData list" where
  "parse_items L owner_name [] = []"
| "parse_items L owner_name (item # rest) =
     (case parse_feed_item L item owner_name of
        Inr post \<Rightarrow> post # parse_items L owner_name rest
      | Inl e \<Rightarrow> parse_items L owner_name rest)"

definition parse_feed_response ::
  "pylib \<Rightarrow> json \<Rightarrow> string \<Rightarrow> exn + (PostData list \<times> json \<times> json)" where
  "parse_feed_response L data owner_name =
     seq (py_get data ''items'' (JList [])) (\<lambda>items.
       seq (py_get data ''next_max_id'' JNull) (\<lambda>next_max_id.
         seq (py_get data ''more_available'' (JBool False)) (\<lambda>more_available.
           seq (py_iter items) (\<lambda>its.
             Inr (parse_items L owner_name its, next_max_id, more_available)))))"

section \<open>Full scrape (client.py)\<close>

text \<open>
  The network is an argument. \<open>profile_step\<close> is what fetching and parsing the profile
  page gives. \<open>fetch n max_id\<close> is what the \<open>n\<close>-th call of \<^verbatim>\<open>_fetch_feed_page\<close>
  (retries included) gives when it is passed the cursor \<open>max_id\<close>. The entries of the
  error list are the exceptions whose text is appended.
\<close>

record scrape_state =
  s_profile :: ProfileData
  s_all_posts :: "PostData list"
  s_next_max_id :: json
  s_more_available :: json
  s_errors :: "exn list"
  s_calls :: nat

datatype 'a flow = Continue 'a | Break 'a

definition backfill_user_id :: "pylib \<Rightarrow> ProfileData \<Rightarrow> json \<Rightarrow> exn + ProfileData" where
  "backfill_user_id L p data =
     (if user_id p \<noteq> [] then Inr p
      else seq (py_get data ''user'' JNull) (\<lambda>u.
             if truthy u
             then seq (py_get u ''pk'' (JStr [])) (\<lambda>pk. Inr (p\<lparr>user_id := py_str L pk\<rparr>))
             else Inr p))"

text \<open>The \<^verbatim>\<open>try\<close> statement of one iteration, with its handlers.\<close>

definition loop_body ::
  "pylib \<Rightarrow> (nat \<Rightarrow> json \<Rightarrow> exn + json) \<Rightarrow> string \<Rightarrow> scrape_state \<Rightarrow> scrape_state flow" where
  "loop_body L fetch uname st =
     (case fetch (s_calls st) (s_next_max_id st) of
        Inl e \<Rightarrow> Break (st\<lparr>s_errors := s_errors st @ [e], s_calls := Suc (s_calls st)\<rparr>)
      | Inr data \<Rightarrow>
          (case backfill_user_id L (s_profile st) data of
             Inl e \<Rightarrow> Break (st\<lparr>s_errors := s_errors st @ [e], s_calls := Suc (s_calls st)\<rparr>)
           | Inr p \<Rightarrow>
               (case parse_feed_response L data uname of
                  Inl e \<Rightarrow>
                    Break (st\<lparr>s_profile := p, s_errors := s_errors st @ [e],
                              s_calls := Suc (s_calls st)\<rparr>)
                | Inr (ps, next_max_id, more_available) \<Rightarrow>
                    (if \<not> truthy next_max_id then Break else Continue)
                      (st\<lparr>s_profile := p, s_all_posts := s_all_posts st @ ps,
                          s_next_max_id := next_max_id,
                          s_more_available := more_available,
                          s_calls := Suc (s_calls st)\<rparr>))))"

text \<open>\<^verbatim>\<open>max_posts and len(all_posts) >= max_posts\<close>.\<close>

definition cap_reached :: "int option \<Rightarrow> nat \<Rightarrow> bool" where
  "cap_reached max_posts n =
     (case max_posts of None \<Rightarrow> False | Some k \<Rightarrow> k \<noteq> 0 \<and> k \<le> int n)"

text \<open>
  The \<^verbatim>\<open>while\<close> loop. It may run for ever; \<open>fuel\<close> bounds the number of iterations
  and \<open>None\<close> says that the bound was reached.
\<close>

fun scrape_loop ::
  "pylib \<Rightarrow> (nat \<Rightarrow> json \<Rightarrow> exn + json) \<Rightarrow> string \<Rightarrow> int option \<Rightarrow> nat \<Rightarrow> scrape_state
     \<Rightarrow> scrape_state option" where
  "scrape_loop L fetch uname max_posts 0 st =
     (if \<not> truthy (s_more_available st) then Some st
      else if cap_reached max_posts (length (s_all_posts st)) then Some st
      else None)"
| "scrape_loop L fetch uname max_posts (Suc fuel) st =
     (if \<not> truthy (s_more_available st) then Some st
      else if cap_reached max_posts (length (s_all_posts st)) then Some st
      else (case loop_body L fetch uname st of
              Break st' \<Rightarrow> Some st'
            | Continue st' \<Rightarrow> scrape_loop L fetch uname max_posts fuel st'))"

text \<open>\<^verbatim>\<open>xs[:k]\<close>.\<close>

definition py_prefix :: "int \<Rightarrow> 'a list \<Rightarrow> 'a list" where
  "py_prefix k xs = (if 0 \<le> k then take (nat k) xs else take (nat (int (length xs) + k)) xs)"

definition trim_posts :: "int option \<Rightarrow> 'a list \<Rightarrow> 'a list" where
  "trim_posts max_posts xs =
     (case max_posts of
        None \<Rightarrow> xs
      | Some k \<Rightarrow> if k \<noteq> 0 \<and> k < int (length xs) then py_prefix k xs else xs)"

text \<open>
  \<^verbatim>\<open>scrape_full\<close>. \<open>config_max_posts\<close> is \<^verbatim>\<open>self.config.max_posts\<close>. The result is
  \<open>None\<close> when the loop needs more than \<open>fuel\<close> iterations; otherwise it is the
  exception raised, or the \<^verbatim>\<open>ScrapeResult\<close> returned together with the number of
  feed pages requested.
\<close>

definition effective_max_posts :: "int option \<Rightarrow> int option \<Rightarrow> int option" where
  "effective_max_posts config_max_posts max_posts =
     (case max_posts of None \<Rightarrow> config_max_posts | Some k \<Rightarrow> Some k)"

definition initial_state :: "ProfileData \<Rightarrow> scrape_state" where
  "initial_state p =
     \<lparr>s_profile = p, s_all_posts = [], s_next_max_id = JNull,
      s_more_available = JBool True, s_errors = [], s_calls = 0\<rparr>"

definition scrape_full ::
  "pylib \<Rightarrow> int option \<Rightarrow> exn + ProfileData \<Rightarrow> (nat \<Rightarrow> json \<Rightarrow> exn + json) \<Rightarrow> string
     \<Rightarrow> int option \<Rightarrow> nat \<Rightarrow> (exn + ScrapeResult \<times> nat) option" where
  "scrape_full L config_max_posts profile_step fetch uname max_posts fuel =
     (case profile_step of
        Inl e \<Rightarrow> Some (Inl e)
      | Inr p \<Rightarrow>
          (let max_posts' = effective_max_posts config_max_posts max_posts
           in case scrape_loop L fetch uname max_posts' fuel (initial_state p) of
                None \<Rightarrow> None
              | Some st \<Rightarrow>
                  (let all_posts = trim_posts max_posts' (s_all_posts st)
                   in case v_bool L (py_and (s_more_available st)
                                       (JBool (truthy (s_next_max_id st)))) of
                        None \<Rightarrow> Some (Inl ValidationError)
                      | Some flag \<Rightarrow>
                          Some (Inr (\<lparr>profile = s_profile st, posts = all_posts,
                                      total_posts_scraped = length all_posts,
                                      has_more_posts = flag, errors = s_errors st\<rparr>,
                                     s_calls st)))))"

section \<open>Feed pages\<close>

text \<open>
  What \<^verbatim>\<open>scrape_full\<close> takes from a feed page (a dict, given by its items): the
  cursor, the continuation flag and the posts.
\<close>

definition page_cursor :: "(string \<times> json) list \<Rightarrow> json" where
  "page_cursor kvs = dget kvs ''next_max_id'' JNull"

definition page_more :: "(string \<times> json) list \<Rightarrow> json" where
  "page_more kvs = dget kvs ''more_available'' (JBool False)"

definition page_posts :: "pylib \<Rightarrow> string \<Rightarrow> (string \<times> json) list \<Rightarrow> PostData list" where
  "page_posts L uname kvs =
     (case py_iter (dget kvs ''items'' (JList [])) of
        Inr its \<Rightarrow> parse_items L uname its
      | Inl e \<Rightarrow> [])"

text \<open>
  A page that obeys the feed contract as far as \<^verbatim>\<open>scrape_full\<close> depends on it: the
  items can be iterated, the \<^verbatim>\<open>user\<close> entry is absent, empty or a dict, and the
  continuation flag is a bool. A continuing page also says that more is available and
  gives a cursor.
\<close>

definition page_ok :: "(string \<times> json) list \<Rightarrow> bool" where
  "page_ok kvs =
     ((case py_iter (dget kvs ''items'' (JList [])) of Inr its \<Rightarrow> True | Inl e \<Rightarrow> False)
      \<and> (case dget kvs ''user'' JNull of JDict u \<Rightarrow> True | x \<Rightarrow> \<not> truthy x)
      \<and> (case page_more kvs of JBool b \<Rightarrow> True | x \<Rightarrow> False))"

definition continuing :: "(string \<times> json) list \<Rightarrow> bool" where
  "continuing kvs = (truthy (page_cursor kvs) \<and> page_more kvs = JBool True)"

text \<open>
  The feed serves the given pages in order: call \<open>n\<close> with cursor \<open>c\<close> returns the
  first page, and each later call, made with the cursor of the page before, returns
  the next one.
\<close>

fun served ::
  "(nat \<Rightarrow> json \<Rightarrow> exn + json) \<Rightarrow> nat \<Rightarrow> json \<Rightarrow> (string \<times> json) list list \<Rightarrow> bool" where
  "served fetch n c [] = True"
| "served fetch n c (kvs # rest) =
     (fetch n c = Inr (JDict kvs) \<and> served fetch (Suc n) (page_cursor kvs) rest)"

text \<open>The profile after the back-fill of the user id from a page.\<close>

definition backfilled :: "pylib \<Rightarrow> ProfileData \<Rightarrow> (string \<times> json) list \<Rightarrow> ProfileData" where
  "backfilled L p kvs =
     (case backfill_user_id L p (JDict kvs) of Inr p' \<Rightarrow> p' | Inl e \<Rightarrow> p)"

text \<open>The state of the loop after a page has been taken in.\<close>

definition absorb :: "pylib \<Rightarrow> string \<Rightarrow> scrape_state \<Rightarrow> (string \<times> json) list \<Rightarrow> scrape_state" where
  "absorb L uname st kvs =
     st\<lparr>s_profile := backfilled L (s_profile st) kvs,
        s_all_posts := s_all_posts st @ page_posts L uname kvs,
        s_next_max_id := page_cursor kvs,
        s_more_available := page_more kvs,
        s_calls := Suc (s_calls st)\<rparr>"

definition all_page_posts :: "pylib \<Rightarrow> string \<Rightarrow> (string \<times> json) list list \<Rightarrow> PostData list" where
  "all_page_posts L uname pages = concat (map (page_posts L uname) pages)"

section \<open>Sample inputs\<close>

text \<open>A rendered profile page that also carries the challenge phrase of the block table.\<close>

definition sample_body :: string where
  \<open>sample_body = ''<meta property="og:title" content="N (@n)"><meta property="og:description" content="1 Followers">checkpoint_required''\<close>




text \<open>A page that embeds both ids in the secondary way only.\<close>

definition sample_embedding :: string where
  \<open>sample_embedding = ''{"APP_ID":"123","ASBD_ID":"456"}''\<close>

definition PATTERNS_asbd_id_alt :: string where
  \<open>PATTERNS_asbd_id_alt = ''"ASBD_ID":"''\<close>

text \<open>
  The order that the specification describes for both ids: a primary pattern, then a
  secondary pattern, then the fallback constant.
\<close>

definition two_tier_then_fallback :: "string \<Rightarrow> string \<Rightarrow> string \<Rightarrow> string \<Rightarrow> string" where
  "two_tier_then_fallback primary secondary fallback html =
     (case re_search primary html of
        Some g \<Rightarrow> g
      | None \<Rightarrow> (case re_search secondary html of Some g \<Rightarrow> g | None \<Rightarrow> fallback))"

text \<open>
  A library behaviour for the samples: every value that is not of the declared type is
  rejected. No sample needs the text of a float, a list or a dict.
\<close>

definition sample_lib :: pylib where
  "sample_lib =
     \<lparr>repr_of = (\<lambda>x. []), coerce_str = (\<lambda>x. None), coerce_int = (\<lambda>x. None),
      coerce_float = (\<lambda>x. None), coerce_bool = (\<lambda>x. None)\<rparr>"

text \<open>Constructor arguments with the shortcode ABC123 and a permalink of their own.\<close>

definition sample_args :: PostData_args where
  "sample_args =
     \<lparr>arg_id = ''1'', arg_shortcode = JStr ''ABC123'', arg_caption = JNull,
      arg_like_count = JInt 0, arg_comment_count = JInt 0, arg_view_count = JNull,
      arg_timestamp = JInt 0, arg_taken_at_datetime = None, arg_media_type = ''image'',
      arg_is_video = False, arg_video_duration = JNull, arg_media_urls = [],
      arg_thumbnail_url = JNull, arg_location = None,
      arg_permalink = Some (JStr ''https://example.com/x''),
      arg_owner_username = JStr [], arg_owner_id = []\<rparr>"

text \<open>A feed item with the given primary key, media-type code and product type.\<close>

definition sample_item :: "int \<Rightarrow> int \<Rightarrow> string \<Rightarrow> json" where
  "sample_item pk code product =
     JDict [(''pk'', JInt pk), (''code'', JStr ''ABC123''), (''media_type'', JInt code),
            (''product_type'', JStr product)]"

text \<open>The record that the constructor builds from \<open>sample_args\<close>.\<close>

definition sample_post :: PostData where
  "sample_post =
     \<lparr>post_id = ''1'', shortcode = ''ABC123'', caption = None, like_count = 0,
      comment_count = 0, view_count = None, timestamp = 0, taken_at_datetime = None,
      media_type = ''image'', is_video = False, video_duration = None, media_urls = [],
      thumbnail_url = None, location = None, permalink = ''https://example.com/x'',
      owner_username = [], owner_id = []\<rparr>"

text \<open>
  A feed of three pages with 12, 12 and 6 items, the first two with a cursor, and a
  feed whose second page is refused with a block error.
\<close>

definition sample_page :: "int list \<Rightarrow> json \<Rightarrow> bool \<Rightarrow> (string \<times> json) list" where
  "sample_page ids cursor more_flag =
     [(''items'', JList (map (\<lambda>i. sample_item i 1 []) ids)), (''next_max_id'', cursor),
      (''more_available'', JBool more_flag), (''status'', JStr ''ok'')]"

definition page1 :: "(string \<times> json) list" where
  "page1 = sample_page [1..12] (JStr ''C1'') True"

definition page2 :: "(string \<times> json) list" where
  "page2 = sample_page [13..24] (JStr ''C2'') True"

definition page3 :: "(string \<times> json) list" where
  "page3 = sample_page [25..30] JNull False"

definition sample_feed :: "nat \<Rightarrow> json \<Rightarrow> exn + json" where
  "sample_feed n c =
     (if c = JNull then Inr (JDict page1)
      else if c = JStr ''C1'' then Inr (JDict page2)
      else if c = JStr ''C2'' then Inr (JDict page3)
      else Inl (ParserError ''Feed API error: bad cursor''))"


definition sample_profile :: ProfileData where
  "sample_profile =
     \<lparr>user_id = [], username = ''natgeo'', full_name = ''National Geographic'',
      biography = [], follower_count = 276000000, following_count = 170,
      posts_count = 30, profile_pic_url = []\<rparr>"

text \<open>What a run of \<^verbatim>\<open>scrape_full\<close> returned: the number of posts, the errors, the
  \<^verbatim>\<open>has_more_posts\<close> flag and the number of feed pages requested.\<close>

definition summary :: "(exn + ScrapeResult \<times> nat) option \<Rightarrow> (nat \<times> exn list \<times> bool \<times> nat) option" where
  "summary out =
     (case out of
        Some (Inr (r, n)) \<Rightarrow> Some (length (posts r), errors r, has_more_posts r, n)
      | _ \<Rightarrow> None)"

section \<open>Properties\<close>

subsection \<open>Block detection\<close>

text \<open>
  C2. A body that contains both the og:title marker and the og:description marker is
  never classified as blocked, whatever else it contains, provided the path of the
  response URL shows neither a login nor a challenge redirect: the check returns
  normally.
\<close>

theorem og_markers_suppress_block_scan:
  assumes "str_in og_title_marker html"
    and "str_in og_description_marker html"
    and "\<not> str_in ''/accounts/login'' url_path"
    and "\<not> str_in ''/challenge'' url_path"
  shows "check_for_blocks url_path html = None"
  using assms by (simp add: check_for_blocks_def)

theorem og_markers_suppress_block_scan_witness:
  "str_in og_title_marker sample_body \<and> str_in og_description_marker sample_body
    \<and> \<not> str_in ''/accounts/login'' ''/natgeo/'' \<and> \<not> str_in ''/challenge'' ''/natgeo/''
    \<and> scan_block_patterns (lower sample_body) BLOCK_PATTERNS \<noteq> None
    \<and> check_for_blocks ''/natgeo/'' sample_body = None"
  using og_markers_suppress_block_scan [of sample_body "''/natgeo/''"]
  by (simp add: sample_body_def og_title_marker_def og_description_marker_def
      BLOCK_PATTERNS_def lower_def lower_char_def)

subsection \<open>Backoff delay\<close>







subsection \<open>Retry executor\<close>






subsection \<open>Count strings\<close>

lemmas count_defs = parse_count_string_def strip_def is_space_def multipliers_def endswith_def
  except_ValueError_def suffixed_count_def py_float_of_str_def split_sign_def lower_def lower_char_def
  split_at_def float_mantissa_def float_exponent_def digitpart_def is_digit_def digit_val_def
  mk_float_def float_overflow_def float_times_int_def py_int_of_float_def py_int_of_str_def scale10_def

lemma py_float_of_str_raises: "py_float_of_str s = Inl e \<Longrightarrow> e = ValueError"
  by (auto simp: py_float_of_str_def split: prod.splits if_splits option.splits)

lemma py_int_of_str_raises: "py_int_of_str s = Inl e \<Longrightarrow> e = ValueError"
  by (auto simp: py_int_of_str_def split: prod.splits if_splits option.splits)

lemma py_int_of_float_raises: "py_int_of_float f = Inl e \<Longrightarrow> e = ValueError \<or> e = OverflowError"
  by (auto simp: py_int_of_float_def split: pyfloat.splits)

lemma except_ValueError_raises: "except_ValueError r = Inl e \<Longrightarrow> r = Inl e \<and> e \<noteq> ValueError"
  by (auto simp: except_ValueError_def split: sum.splits if_splits)

lemma suffix_loop_raises: "suffix_loop s ms = Some (Inl e) \<Longrightarrow> e = OverflowError"
proof (induction s ms rule: suffix_loop.induct)
  case (1 count_str)
  then show ?case by simp
next
  case (2 count_str suffix mult rest)
  show ?case
  proof (cases "endswith count_str suffix")
    case True
    with 2 have "except_ValueError (suffixed_count count_str mult) = Inl e" by simp
    then have "suffixed_count count_str mult = Inl e" "e \<noteq> ValueError"
      using except_ValueError_raises by blast+
    then show ?thesis
      by (auto simp: suffixed_count_def split: sum.splits
          dest: py_float_of_str_raises py_int_of_float_raises)
  next
    case False
    with 2 show ?thesis by simp
  qed
qed

lemma parse_count_string_raises: "parse_count_string s = Inl e \<Longrightarrow> e = OverflowError"
  by (auto simp: parse_count_string_def Let_def split: if_splits option.splits
      dest: suffix_loop_raises except_ValueError_raises py_int_of_str_raises)

lemma parse_count_string_examples:
  "parse_count_string ''31K'' = Inr 31000"
  "parse_count_string ''1.5M'' = Inr 1500000"
  "parse_count_string ''2B'' = Inr 2000000000"
  "parse_count_string ''12,345'' = Inr 12345"
  "parse_count_string [] = Inr 0"
  "parse_count_string ''abc'' = Inr 0"
  "parse_count_string ''1.2.3K'' = Inr 0"
  by (simp_all add: count_defs)

text \<open>
  A run of at least 310 digits that does not start with 0, followed by K, is a string
  that the follower-count pattern of the profile parser accepts; its float is infinite
  and the conversion to int raises.
\<close>

lemma digits_rest_all:
  "\<forall>c\<in>set ds. is_digit c \<Longrightarrow>
     \<exists>w. digits_rest v n ds = Some (w, n + length ds) \<and> v * 10 ^ length ds \<le> w"
proof (induction v n ds rule: digits_rest.induct)
  case (1 v n)
  then show ?case by simp
next
  case (2 v n c)
  then show ?case by simp
next
  case (3 v n c d ds)
  then have c: "is_digit c" and r: "\<forall>c\<in>set (d # ds). is_digit c" by simp_all
  from 3(1)[OF c r] obtain w where
    w: "digits_rest (10 * v + digit_val c) (Suc n) (d # ds) = Some (w, Suc n + length (d # ds))"
       "(10 * v + digit_val c) * 10 ^ length (d # ds) \<le> w" by blast
  have "v * 10 ^ length (c # d # ds) \<le> (10 * v + digit_val c) * 10 ^ length (d # ds)"
    by (simp add: algebra_simps)
  then have "v * 10 ^ length (c # d # ds) \<le> w" using w(2) by (rule order_trans)
  moreover have "digits_rest v n (c # d # ds) = Some (w, n + length (c # d # ds))"
    using w(1) c by simp
  ultimately show ?case by blast
qed

lemma digit_facts:
  assumes "is_digit c"
  shows "\<not> is_space c" "c \<noteq> CHR '',''" "c \<noteq> CHR ''.''" "c \<noteq> CHR ''e''" "c \<noteq> CHR ''E''"
    "c \<noteq> CHR ''-''" "c \<noteq> CHR ''+''" "lower_char c = c" "c \<noteq> CHR ''i''" "c \<noteq> CHR ''n''"
  using assms by (auto simp: is_digit_def is_space_def lower_char_def)

lemma strip_digits:
  assumes "ds \<noteq> []" "\<forall>c\<in>set ds. is_digit c"
  shows "\<not> is_space x \<Longrightarrow> strip (ds @ [x]) = ds @ [x]" "strip ds = ds"
proof -
  obtain d ds' where d: "ds = d # ds'" using assms(1) by (cases ds) auto
  then have nd: "\<not> is_space d" using assms(2) digit_facts(1) by simp
  obtain l ds'' where l: "ds = ds'' @ [l]" using assms(1) by (metis rev_exhaust)
  then have nl: "\<not> is_space l" using assms(2) digit_facts(1) by simp
  show "strip (ds @ [x]) = ds @ [x]" if "\<not> is_space x"
    using nd that by (simp add: strip_def d)
  have "dropWhile is_space ds = ds" using nd by (simp add: d)
  then show "strip ds = ds" using nl by (simp add: strip_def l)
qed

lemma mantissa_digits:
  assumes "\<forall>c\<in>set (d # ds). is_digit c" and "digit_val d \<noteq> 0"
  shows "\<exists>w. float_mantissa (d # ds) = Some (of_nat w) \<and> 10 ^ length ds \<le> w"
proof -
  have nodot: "dropWhile (\<lambda>c. \<not> c = CHR ''.'') (d # ds) = []"
    using assms(1) digit_facts(3) by (auto simp: dropWhile_eq_Nil_conv)
  from digits_rest_all[of ds "digit_val d" 1] assms(1) obtain w where
    w: "digits_rest (digit_val d) 1 ds = Some (w, 1 + length ds)"
       "digit_val d * 10 ^ length ds \<le> w" by auto
  have "(10::nat) ^ length ds \<le> digit_val d * 10 ^ length ds"
    using assms(2) by (cases "digit_val d") auto
  then have "10 ^ length ds \<le> w" using w(2) by (rule order_trans)
  moreover have "float_mantissa (d # ds) = Some (of_nat w)"
    using assms(1) w(1) nodot by (simp add: float_mantissa_def split_at_def digitpart_def)
  ultimately show ?thesis by blast
qed

lemma float_of_long_digits:
  assumes "\<forall>c\<in>set (d # ds). is_digit c" and "digit_val d \<noteq> 0" and "309 \<le> length ds"
  shows "py_float_of_str (d # ds) = Inr PosInf"
proof -
  have s: "strip (d # ds) = d # ds" using strip_digits(2)[of "d # ds"] assms(1) by simp
  have sg: "split_sign (d # ds) = (False, d # ds)"
    using assms(1) digit_facts(6,7)[of d] by (simp add: split_sign_def)
  have lw: "lower (d # ds) = d # ds"
    using assms(1) digit_facts(8) by (simp add: lower_def map_idI)
  have ni: "d # ds \<noteq> ''inf''" "d # ds \<noteq> ''infinity''" "d # ds \<noteq> ''nan''"
    using assms(1) digit_facts(9,10)[of d] by auto
  have noexp: "dropWhile (\<lambda>c. \<not> (c = CHR ''e'' \<or> c = CHR ''E'')) (d # ds) = []"
    using assms(1) digit_facts(4,5) by (auto simp: dropWhile_eq_Nil_conv)
  from mantissa_digits[OF assms(1,2)] obtain w where
    w: "float_mantissa (d # ds) = Some (of_nat w)" "10 ^ length ds \<le> w" by blast
  have "(10::nat) ^ 309 \<le> 10 ^ length ds" using assms(3) by (intro power_increasing) auto
  with w(2) have "(10::nat) ^ 309 \<le> w" by linarith
  then have "(of_nat ((10::nat) ^ 309) :: rat) \<le> of_nat w" by (rule of_nat_mono)
  moreover have "float_overflow \<le> of_nat ((10::nat) ^ 309)" by (simp add: float_overflow_def)
  ultimately have "float_overflow \<le> of_nat w" by linarith
  then have "mk_float (of_nat w) = PosInf" by (simp add: mk_float_def)
  then show ?thesis
    using s sg lw ni noexp w(1) by (simp add: py_float_of_str_def split_at_def)
qed

lemma parse_count_string_long_digits:
  assumes "\<forall>c\<in>set (d # ds). is_digit c" and "digit_val d \<noteq> 0" and "309 \<le> length ds"
  shows "parse_count_string (d # ds @ ''K'') = Inl OverflowError"
proof -
  have nk: "\<not> is_space (CHR ''K'')" by (simp add: is_space_def)
  have s: "strip ((d # ds) @ ''K'') = (d # ds) @ ''K''"
    using strip_digits(1)[of "d # ds" "CHR ''K''"] assms(1) nk by simp
  have f: "filter (\<lambda>c. c \<noteq> CHR '','') ((d # ds) @ ''K'') = (d # ds) @ ''K''"
    using assms(1) digit_facts(2) by (auto simp: filter_id_conv)
  have e: "endswith ((d # ds) @ ''K'') ''K''" by (simp add: endswith_def)
  have "suffixed_count ((d # ds) @ ''K'') 1000 = Inl OverflowError"
    using float_of_long_digits[OF assms]
    by (simp add: suffixed_count_def butlast_append float_times_int_def py_int_of_float_def)
  then have "suffix_loop ((d # ds) @ ''K'') multipliers = Some (Inl OverflowError)"
    using e by (simp add: multipliers_def except_ValueError_def)
  then show ?thesis using s f by (simp add: parse_count_string_def)
qed

text \<open>
  C6. The function is not total: on the string \<^verbatim>\<open>infK\<close> the conversion
  \<^verbatim>\<open>float("inf")\<close> succeeds, \<^verbatim>\<open>int\<close> of the infinite product raises
  \<^verbatim>\<open>OverflowError\<close>, and the handler catches \<^verbatim>\<open>ValueError\<close> only. The same
  happens for \<^verbatim>\<open>1e400K\<close>, whose float overflows to infinity.
\<close>

theorem parse_count_string_overflow_escapes:
  "parse_count_string ''infK'' = Inl OverflowError
   \<and> parse_count_string ''1e400K'' = Inl OverflowError"
  by (simp add: count_defs)

subsection \<open>Token discovery\<close>

lemma startswith_append: "startswith s p \<Longrightarrow> s = p @ drop (length p) s"
  by (induction s p rule: startswith.induct) auto

lemma startswith_appendI: "startswith (p @ r) p"
  by (induction p) auto

lemma match_here_sound:
  assumes "match_here lit s = Some ds"
  shows "\<exists>post. s = lit @ ds @ CHR 0x22 # post \<and> ds \<noteq> [] \<and> (\<forall>c\<in>set ds. is_digit c)"
proof -
  let ?rest = "drop (length lit) s"
  from assms have sw: "startswith s lit" and ds: "ds = takeWhile is_digit ?rest" "ds \<noteq> []"
    and q: "startswith (dropWhile is_digit ?rest) [CHR 0x22]"
    by (auto simp: match_here_def Let_def split: if_splits)
  from q obtain post where "dropWhile is_digit ?rest = CHR 0x22 # post"
    by (cases "dropWhile is_digit ?rest") auto
  then have "?rest = ds @ CHR 0x22 # post"
    using takeWhile_dropWhile_id[of is_digit ?rest] ds by simp
  with startswith_append[OF sw] have "s = lit @ ds @ CHR 0x22 # post" by simp
  moreover have "\<forall>c\<in>set ds. is_digit c" using ds(1) by (auto dest: set_takeWhileD)
  ultimately show ?thesis using ds(2) by blast
qed

lemma re_search_sound:
  "re_search lit s = Some ds \<Longrightarrow>
     \<exists>pre post. s = pre @ lit @ ds @ CHR 0x22 # post \<and> ds \<noteq> [] \<and> (\<forall>c\<in>set ds. is_digit c)"
proof (induction s)
  case Nil
  then show ?case using match_here_sound[of lit "[]" ds] by auto
next
  case (Cons c cs)
  show ?case
  proof (cases "match_here lit (c # cs)")
    case (Some a)
    with Cons.prems have "match_here lit (c # cs) = Some ds" by simp
    from match_here_sound[OF this] show ?thesis by (metis append_Nil)
  next
    case None
    with Cons.prems have "re_search lit cs = Some ds" by simp
    from Cons.IH[OF this] obtain pre post where
      "cs = pre @ lit @ ds @ CHR 0x22 # post" "ds \<noteq> []" "\<forall>c\<in>set ds. is_digit c" by blast
    then have "c # cs = (c # pre) @ lit @ ds @ CHR 0x22 # post" by simp
    then show ?thesis using \<open>ds \<noteq> []\<close> \<open>\<forall>c\<in>set ds. is_digit c\<close> by blast
  qed
qed

lemma match_here_complete:
  assumes "ds \<noteq> []" "\<forall>c\<in>set ds. is_digit c"
  shows "match_here lit (lit @ ds @ CHR 0x22 # post) = Some ds"
proof -
  have nd: "\<not> is_digit (CHR 0x22)" by (simp add: is_digit_def)
  have "takeWhile is_digit (ds @ CHR 0x22 # post) = ds"
    using assms(2) nd by (simp add: takeWhile_append2)
  moreover have "dropWhile is_digit (ds @ CHR 0x22 # post) = CHR 0x22 # post"
    using assms(2) nd by (simp add: dropWhile_append2)
  ultimately show ?thesis using assms(1)
    by (simp add: match_here_def startswith_appendI Let_def)
qed

lemma re_search_complete:
  assumes "ds \<noteq> []" "\<forall>c\<in>set ds. is_digit c"
  shows "re_search lit (pre @ lit @ ds @ CHR 0x22 # post) \<noteq> None"
proof (induction pre)
  case Nil
  show ?case
  proof (cases "lit @ ds @ CHR 0x22 # post")
    case Nil
    then show ?thesis using assms by simp
  next
    case (Cons c cs)
    have "match_here lit (c # cs) = Some ds"
      using match_here_complete[OF assms, of lit post] Cons by simp
    then show ?thesis using Cons by simp
  qed
next
  case (Cons c pre)
  then show ?case by (cases "match_here lit (c # pre @ lit @ ds @ CHR 0x22 # post)") auto
qed

text \<open>
  C9, as stated, fails for the anti-bot signature id: it has one pattern and the
  fallback, no secondary pattern. On a page that embeds both ids in the secondary way
  the application id is found and the signature id is the fallback constant, not the
  value that a two-tier search would give.
\<close>

theorem asbd_id_single_tier_counterexample:
  "extract_app_id sample_embedding = ''123''
   \<and> extract_asbd_id sample_embedding = Some FALLBACK_asbd_id
   \<and> extract_asbd_id sample_embedding \<noteq>
       Some (two_tier_then_fallback PATTERNS_asbd_id PATTERNS_asbd_id_alt FALLBACK_asbd_id
               sample_embedding)"
  by (simp add: extract_app_id_def extract_asbd_id_def two_tier_then_fallback_def
      sample_embedding_def PATTERNS_app_id_def PATTERNS_app_id_alt_def PATTERNS_asbd_id_def
      PATTERNS_asbd_id_alt_def FALLBACK_asbd_id_def match_here_def is_digit_def)

text \<open>
  C9, amended. Token discovery is a function of the page and the csrf token only. The
  application id is group 1 of the primary pattern if it matches, else group 1 of the
  secondary pattern if it matches, else the fallback constant. The anti-bot signature
  id is group 1 of its single pattern if it matches, else its fallback constant. The
  csrf token of the result is the csrf argument.
\<close>

theorem discover_all_tiers:
  "app_id (discover_all html csrf) =
     two_tier_then_fallback PATTERNS_app_id PATTERNS_app_id_alt FALLBACK_app_id html
   \<and> asbd_id (discover_all html csrf) =
       (case re_search PATTERNS_asbd_id html of
          Some g \<Rightarrow> Some g
        | None \<Rightarrow> Some FALLBACK_asbd_id)
   \<and> csrf_token (discover_all html csrf) = csrf"
  by (simp add: discover_all_def extract_app_id_def extract_asbd_id_def
      two_tier_then_fallback_def)

subsection \<open>Feed items\<close>

lemma seq_Inr_iff: "seq m f = Inr y \<longleftrightarrow> (\<exists>x. m = Inr x \<and> f x = Inr y)"
  by (cases m) (simp_all add: seq_def)

lemma seq_Inr [simp]: "seq (Inr x) f = f x"
  by (simp add: seq_def)

lemma seq_Inl [simp]: "seq (Inl e) f = Inl e"
  by (simp add: seq_def)

lemma validate_PostData_fields:
  assumes "validate_PostData L a = Some p"
  shows "media_type p = arg_media_type a" and "is_video p = arg_is_video a"
    and "v_str L (arg_shortcode a) = Some (shortcode p)"
    and "(case arg_permalink a of None \<Rightarrow> Some [] | Some x \<Rightarrow> v_str L x) = Some (permalink p)"
  using assms by (auto simp: validate_PostData_def bind_eq_Some_conv)

lemma PostData_init_cases:
  assumes "PostData_init L a = Inr p"
  obtains q where "validate_PostData L a = Some q"
    and "media_type p = media_type q" and "shortcode p = shortcode q"
    and "permalink p = (if permalink q = [] \<and> shortcode q \<noteq> [] then post_url (shortcode q) else permalink q)"
proof -
  from assms obtain q where q: "validate_PostData L a = Some q"
    by (auto simp: PostData_init_def split: option.splits)
  let ?q' = "if permalink q = [] \<and> shortcode q \<noteq> [] then q\<lparr>permalink := post_url (shortcode q)\<rparr> else q"
  from assms q have "p = ?q' \<or> (\<exists>d. p = ?q'\<lparr>taken_at_datetime := Some d\<rparr>)"
    by (auto simp: PostData_init_def Let_def seq_Inr_iff split: if_splits)
  then have "media_type p = media_type q \<and> shortcode p = shortcode q
    \<and> permalink p = (if permalink q = [] \<and> shortcode q \<noteq> [] then post_url (shortcode q) else permalink q)"
    by auto
  with q that show thesis by blast
qed

lemma PostData_init_media_type:
  assumes "PostData_init L a = Inr p"
  shows "media_type p = arg_media_type a"
  using assms by (elim PostData_init_cases) (simp add: validate_PostData_fields)

lemma parse_feed_item_args:
  assumes "parse_feed_item L (JDict kvs) owner = Inr p"
  shows "\<exists>a. PostData_init L a = Inr p \<and> arg_permalink a = None
     \<and> arg_media_type a = resolve_media_type (dget kvs ''media_type'' (JInt 1)) (dget kvs ''product_type'' (JStr []))"
  using assms unfolding parse_feed_item_def Let_def json.case seq_Inr_iff
  by (elim exE conjE) (rule exI, rule conjI, assumption, simp)

text \<open>
  C7. For every feed item that parses, the media type of the post follows the fixed
  priority on the item's media-type code (1 when absent) and product type (empty when
  absent): code 8 gives carousel whatever the product type; otherwise code 2 gives
  reel with product type clips and video with any other product type; every other code
  gives image.
\<close>

theorem media_type_priority:
  assumes "parse_feed_item L (JDict kvs) owner = Inr p"
  shows "(py_eq_int (dget kvs ''media_type'' (JInt 1)) 8 \<longrightarrow> media_type p = ''carousel'')
    \<and> (\<not> py_eq_int (dget kvs ''media_type'' (JInt 1)) 8
        \<and> py_eq_int (dget kvs ''media_type'' (JInt 1)) 2
        \<and> dget kvs ''product_type'' (JStr []) = JStr ''clips'' \<longrightarrow> media_type p = ''reel'')
    \<and> (\<not> py_eq_int (dget kvs ''media_type'' (JInt 1)) 8
        \<and> py_eq_int (dget kvs ''media_type'' (JInt 1)) 2
        \<and> dget kvs ''product_type'' (JStr []) \<noteq> JStr ''clips'' \<longrightarrow> media_type p = ''video'')
    \<and> (\<not> py_eq_int (dget kvs ''media_type'' (JInt 1)) 8
        \<and> \<not> py_eq_int (dget kvs ''media_type'' (JInt 1)) 2 \<longrightarrow> media_type p = ''image'')"
proof -
  from parse_feed_item_args[OF assms] obtain a where
    a: "PostData_init L a = Inr p"
       "arg_media_type a = resolve_media_type (dget kvs ''media_type'' (JInt 1)) (dget kvs ''product_type'' (JStr []))"
    by blast
  have "media_type p = resolve_media_type (dget kvs ''media_type'' (JInt 1)) (dget kvs ''product_type'' (JStr []))"
    using PostData_init_media_type[OF a(1)] a(2) by simp
  then show ?thesis by (simp add: resolve_media_type_def)
qed

lemmas item_defs = parse_feed_item_def sample_item_def sample_lib_def dget_def py_str_def
  py_or_def resolve_media_type_def extract_media_urls_def own_urls_def
  own_image_url_def own_video_url_def opt_list_def PostData_init_def validate_PostData_def
  v_str_def v_int_def v_float_def v_optional_def post_url_def Let_def

lemmas item_eval = item_defs int_str_def nat_str.simps

theorem media_type_priority_witness:
  "map_sum id media_type (parse_feed_item sample_lib (sample_item 7 8 ''clips'') ''natgeo'')
     = Inr ''carousel''
   \<and> map_sum id media_type (parse_feed_item sample_lib (sample_item 7 2 ''clips'') ''natgeo'')
     = Inr ''reel''
   \<and> map_sum id media_type (parse_feed_item sample_lib (sample_item 7 2 []) ''natgeo'')
     = Inr ''video''
   \<and> map_sum id media_type (parse_feed_item sample_lib (sample_item 7 1 ''clips'') ''natgeo'')
     = Inr ''image''"
proof -
  have c: "\<exists>p. parse_feed_item sample_lib (sample_item 7 code product) ''natgeo'' = Inr p"
    for code product
    by (simp add: item_defs)
  have k: "sample_item 7 code product =
      JDict [(''pk'', JInt 7), (''code'', JStr ''ABC123''), (''media_type'', JInt code),
             (''product_type'', JStr product)]" for code product
    by (simp add: sample_item_def)
  have g: "dget [(''pk'', JInt 7), (''code'', JStr ''ABC123''), (''media_type'', JInt code),
             (''product_type'', JStr product)] ''media_type'' (JInt 1) = JInt code"
      "dget [(''pk'', JInt 7), (''code'', JStr ''ABC123''), (''media_type'', JInt code),
             (''product_type'', JStr product)] ''product_type'' (JStr []) = JStr product"
    for code product
    by (simp_all add: dget_def)
  from c[of 8 "''clips''"] obtain p1 where
    p1: "parse_feed_item sample_lib (sample_item 7 8 ''clips'') ''natgeo'' = Inr p1" by blast
  from c[of 2 "''clips''"] obtain p2 where
    p2: "parse_feed_item sample_lib (sample_item 7 2 ''clips'') ''natgeo'' = Inr p2" by blast
  from c[of 2 "[]"] obtain p3 where
    p3: "parse_feed_item sample_lib (sample_item 7 2 []) ''natgeo'' = Inr p3" by blast
  from c[of 1 "''clips''"] obtain p4 where
    p4: "parse_feed_item sample_lib (sample_item 7 1 ''clips'') ''natgeo'' = Inr p4" by blast
  have "media_type p1 = ''carousel''"
    using media_type_priority[OF p1[unfolded k]] by (simp add: g)
  moreover have "media_type p2 = ''reel''"
    using media_type_priority[OF p2[unfolded k]] by (simp add: g)
  moreover have "media_type p3 = ''video''"
    using media_type_priority[OF p3[unfolded k]] by (simp add: g)
  moreover have "media_type p4 = ''image''"
    using media_type_priority[OF p4[unfolded k]] by (simp add: g)
  ultimately show ?thesis by (simp add: p1 p2 p3 p4)
qed

subsection \<open>Permalink\<close>

text \<open>
  C8, as stated, fails: a permalink passed to the constructor is kept, and then the
  stored permalink differs from the one derived from the shortcode.
\<close>

theorem supplied_permalink_kept_counterexample:
  "PostData_init sample_lib sample_args = Inr sample_post
   \<and> shortcode sample_post = ''ABC123''
   \<and> permalink sample_post = ''https://example.com/x''
   \<and> permalink sample_post \<noteq> post_url (shortcode sample_post)"
  by (simp add: PostData_init_def validate_PostData_def sample_args_def sample_lib_def
      sample_post_def v_str_def v_int_def v_float_def v_optional_def post_url_def)

text \<open>
  C8, amended. For every post record with a non-empty shortcode that is constructed
  without a permalink argument or with an empty one, the permalink is the canonical
  URL of the shortcode, a function of the shortcode alone; this covers every record
  that \<^verbatim>\<open>parse_feed_item\<close> builds. A non-empty permalink passed to the constructor is
  stored as it is.
\<close>

theorem permalink_derived_unless_supplied:
  "(PostData_init L a = Inr p \<and> shortcode p \<noteq> [] \<and> arg_permalink a = None
      \<longrightarrow> permalink p = post_url (shortcode p))
   \<and> (PostData_init L a = Inr p \<and> shortcode p \<noteq> [] \<and> arg_permalink a = Some (JStr s)
      \<longrightarrow> permalink p = (if s = [] then post_url (shortcode p) else s))
   \<and> (parse_feed_item L item owner = Inr p \<and> shortcode p \<noteq> []
      \<longrightarrow> permalink p = post_url (shortcode p))"
proof (intro conjI impI)
  assume h: "PostData_init L a = Inr p \<and> shortcode p \<noteq> [] \<and> arg_permalink a = None"
  then show "permalink p = post_url (shortcode p)"
    by (elim conjE PostData_init_cases) (use validate_PostData_fields(4) in fastforce)
next
  assume h: "PostData_init L a = Inr p \<and> shortcode p \<noteq> [] \<and> arg_permalink a = Some (JStr s)"
  then show "permalink p = (if s = [] then post_url (shortcode p) else s)"
    by (elim conjE PostData_init_cases)
       (use validate_PostData_fields(4) in \<open>fastforce simp: v_str_def\<close>)
next
  assume h: "parse_feed_item L item owner = Inr p \<and> shortcode p \<noteq> []"
  then obtain kvs where "item = JDict kvs"
    by (cases item) (auto simp: parse_feed_item_def)
  with h parse_feed_item_args[of L kvs owner p] obtain a where
    "PostData_init L a = Inr p" "arg_permalink a = None" by blast
  with h show "permalink p = post_url (shortcode p)"
    by (elim conjE PostData_init_cases) (use validate_PostData_fields(4) in fastforce)
qed

theorem permalink_derived_unless_supplied_witness:
  "map_sum id (\<lambda>p. (shortcode p, permalink p))
      (PostData_init sample_lib (sample_args\<lparr>arg_permalink := None\<rparr>))
     = Inr (''ABC123'', ''https://www.instagram.com/p/ABC123/'')
   \<and> map_sum id (\<lambda>p. (shortcode p, permalink p))
      (parse_feed_item sample_lib (sample_item 7 1 []) ''natgeo'')
     = Inr (''ABC123'', ''https://www.instagram.com/p/ABC123/'')
   \<and> map_sum id (\<lambda>p. (shortcode p, permalink p)) (PostData_init sample_lib sample_args)
     = Inr (''ABC123'', ''https://example.com/x'')"
proof -
  obtain p where p: "PostData_init sample_lib (sample_args\<lparr>arg_permalink := None\<rparr>) = Inr p"
    and sp: "shortcode p = ''ABC123''"
    by (simp add: PostData_init_def validate_PostData_def sample_args_def sample_lib_def
      v_str_def v_int_def v_float_def v_optional_def)
  obtain q where q: "parse_feed_item sample_lib (sample_item 7 1 []) ''natgeo'' = Inr q"
    and sq: "shortcode q = ''ABC123''"
    by (simp add: item_defs)
  obtain r where r: "PostData_init sample_lib sample_args = Inr r"
    and sr: "shortcode r = ''ABC123''"
    by (simp add: PostData_init_def validate_PostData_def sample_args_def sample_lib_def
      v_str_def v_int_def v_float_def v_optional_def)
  have "permalink p = post_url (shortcode p)"
    using permalink_derived_unless_supplied
      [of sample_lib "sample_args\<lparr>arg_permalink := None\<rparr>" p "[]" "sample_item 7 1 []" "''natgeo''"]
      p sp by (simp add: sample_args_def)
  moreover have "permalink q = post_url (shortcode q)"
    using permalink_derived_unless_supplied
      [of sample_lib "sample_args" q "[]" "sample_item 7 1 []" "''natgeo''"]
      q sq by simp
  moreover have "permalink r = ''https://example.com/x''"
    using permalink_derived_unless_supplied
      [of sample_lib sample_args r "''https://example.com/x''" "sample_item 7 1 []" "''natgeo''"]
      r sr by (simp add: sample_args_def)
  ultimately show ?thesis by (simp add: p q r sp sq sr post_url_def)
qed

subsection \<open>Feed responses\<close>

lemma parse_items_map_filter:
  "parse_items L owner its =
     List.map_filter
       (\<lambda>item. case parse_feed_item L item owner of Inr p \<Rightarrow> Some p | Inl e \<Rightarrow> None) its"
  by (induction its) (auto split: sum.splits)

text \<open>
  C10, as stated, fails: a feed response dict whose \<^verbatim>\<open>items\<close> entry cannot be
  iterated (null here) makes \<^verbatim>\<open>parse_feed_response\<close> raise, outside the handler that
  guards the single items.
\<close>

theorem parse_feed_response_items_null_counterexample:
  "parse_feed_response sample_lib (JDict [(''items'', JNull), (''more_available'', JBool True)])
     ''natgeo'' = Inl TypeError"
  by (simp add: parse_feed_response_def dget_def)

text \<open>
  C10, amended. For every feed response dict whose \<^verbatim>\<open>items\<close> entry is absent or can
  be iterated, \<^verbatim>\<open>parse_feed_response\<close> returns normally; an item whose parsing raises
  is skipped, and the posts returned are exactly those of the items that parse, in the
  order of the feed. The cursor and the continuation flag are the entries of the
  response.
\<close>

theorem parse_feed_response_skips_failures:
  assumes "py_iter (dget kvs ''items'' (JList [])) = Inr its"
  shows "parse_feed_response L (JDict kvs) owner =
     Inr (List.map_filter
            (\<lambda>item. case parse_feed_item L item owner of Inr p \<Rightarrow> Some p | Inl e \<Rightarrow> None) its,
          dget kvs ''next_max_id'' JNull, dget kvs ''more_available'' (JBool False))"
  using assms by (simp add: parse_feed_response_def parse_items_map_filter)

theorem parse_feed_response_skips_failures_witness:
  "map_sum id (\<lambda>(ps, c, m). (map post_id ps, c, m))
     (parse_feed_response sample_lib
        (JDict [(''items'', JList [sample_item 1 1 [], JInt 5, sample_item 2 8 []]),
                (''next_max_id'', JStr ''C1'')]) ''natgeo'')
   = Inr ([''1'', ''2''], JStr ''C1'', JBool False)"
proof -
  have i: "py_iter (dget [(''items'', JList [sample_item 1 1 [], JInt 5, sample_item 2 8 []]),
                (''next_max_id'', JStr ''C1'')] ''items'' (JList []))
      = Inr [sample_item 1 1 [], JInt 5, sample_item 2 8 []]"
    by (simp add: dget_def)
  obtain p1 where p1: "parse_feed_item sample_lib (sample_item 1 1 []) ''natgeo'' = Inr p1"
    and i1: "post_id p1 = ''1''"
    by (simp add: item_eval)
  obtain p2 where p2: "parse_feed_item sample_lib (sample_item 2 8 []) ''natgeo'' = Inr p2"
    and i2: "post_id p2 = ''2''"
    by (simp add: item_eval)
  have p3: "parse_feed_item sample_lib (JInt 5) ''natgeo'' = Inl AttributeError"
    by (simp add: parse_feed_item_def)
  show ?thesis
    using parse_feed_response_skips_failures[OF i, of sample_lib "''natgeo''"]
    by (simp add: p1 p2 p3 i1 i2 dget_def)
qed

subsection \<open>Full scrape\<close>

lemma backfill_ok:
  assumes "page_ok kvs"
  shows "backfill_user_id L p (JDict kvs) = Inr (backfilled L p kvs)"
proof -
  from assms have u: "case dget kvs ''user'' JNull of JDict u \<Rightarrow> True | x \<Rightarrow> \<not> truthy x"
    by (simp add: page_ok_def)
  have "\<exists>p'. backfill_user_id L p (JDict kvs) = Inr p'"
    using u by (cases "dget kvs ''user'' JNull") (auto simp: backfill_user_id_def)
  then show ?thesis by (auto simp: backfilled_def)
qed

lemma parse_feed_response_ok:
  assumes "page_ok kvs"
  shows "parse_feed_response L (JDict kvs) uname =
           Inr (page_posts L uname kvs, page_cursor kvs, page_more kvs)"
proof -
  from assms obtain its where "py_iter (dget kvs ''items'' (JList [])) = Inr its"
    by (auto simp: page_ok_def split: sum.splits)
  then show ?thesis
    by (simp add: parse_feed_response_def page_posts_def page_cursor_def page_more_def)
qed

lemma loop_body_ok:
  assumes "fetch (s_calls st) (s_next_max_id st) = Inr (JDict kvs)" and "page_ok kvs"
  shows "loop_body L fetch uname st =
           (if truthy (page_cursor kvs) then Continue else Break) (absorb L uname st kvs)"
  using assms(1) backfill_ok[OF assms(2)] parse_feed_response_ok[OF assms(2)]
  by (simp add: loop_body_def absorb_def)


lemma cap_reached_mono: "cap_reached mp n \<Longrightarrow> n \<le> m \<Longrightarrow> cap_reached mp m"
  by (auto simp: cap_reached_def split: option.splits)

lemma absorb_fields [simp]:
  "s_all_posts (absorb L uname st kvs) = s_all_posts st @ page_posts L uname kvs"
  "s_next_max_id (absorb L uname st kvs) = page_cursor kvs"
  "s_more_available (absorb L uname st kvs) = page_more kvs"
  "s_errors (absorb L uname st kvs) = s_errors st"
  "s_calls (absorb L uname st kvs) = Suc (s_calls st)"
  by (simp_all add: absorb_def)

lemma replay_fields:
  "s_all_posts (foldl (absorb L uname) st pages) = s_all_posts st @ all_page_posts L uname pages"
  "s_errors (foldl (absorb L uname) st pages) = s_errors st"
  "s_calls (foldl (absorb L uname) st pages) = s_calls st + length pages"
  "s_next_max_id (foldl (absorb L uname) st pages) =
     (if pages = [] then s_next_max_id st else page_cursor (last pages))"
  "s_more_available (foldl (absorb L uname) st pages) =
     (if pages = [] then s_more_available st else page_more (last pages))"
  by (induction pages arbitrary: st) (simp_all add: all_page_posts_def)

lemma scrape_loop_absorb:
  assumes "served fetch (s_calls st) (s_next_max_id st) pages"
    and "\<forall>kvs\<in>set pages. page_ok kvs \<and> continuing kvs"
    and "truthy (s_more_available st)"
    and "\<not> cap_reached mp (length (s_all_posts st) + length (all_page_posts L uname (butlast pages)))"
  shows "scrape_loop L fetch uname mp (length pages + fuel) st =
           scrape_loop L fetch uname mp fuel (foldl (absorb L uname) st pages)"
  using assms
proof (induction pages arbitrary: st)
  case Nil
  then show ?case by simp
next
  case (Cons kvs rest)
  let ?st' = "absorb L uname st kvs"
  from Cons.prems have f: "fetch (s_calls st) (s_next_max_id st) = Inr (JDict kvs)"
    and ok: "page_ok kvs" and co: "continuing kvs" by simp_all
  have nc: "\<not> cap_reached mp (length (s_all_posts st))"
    using Cons.prems(4) cap_reached_mono[of mp "length (s_all_posts st)"] by fastforce
  have lb: "loop_body L fetch uname st = Continue ?st'"
    using loop_body_ok[of fetch st kvs L uname] f ok co by (simp add: continuing_def)
  have step: "scrape_loop L fetch uname mp (length (kvs # rest) + fuel) st =
      scrape_loop L fetch uname mp (length rest + fuel) ?st'"
    using Cons.prems(3) nc lb by simp
  have "scrape_loop L fetch uname mp (length rest + fuel) ?st' =
      scrape_loop L fetch uname mp fuel (foldl (absorb L uname) ?st' rest)"
  proof (cases "rest = []")
    case True
    then show ?thesis by simp
  next
    case False
    show ?thesis
    proof (rule Cons.IH)
      show "served fetch (s_calls ?st') (s_next_max_id ?st') rest" using Cons.prems(1) by simp
      show "\<forall>kvs\<in>set rest. page_ok kvs \<and> continuing kvs" using Cons.prems(2) by simp
      show "truthy (s_more_available ?st')" using co by (simp add: continuing_def)
      show "\<not> cap_reached mp (length (s_all_posts ?st')
              + length (all_page_posts L uname (butlast rest)))"
        using Cons.prems(4) False by (simp add: all_page_posts_def add.assoc)
    qed
  qed
  with step show ?case by simp
qed

lemma scrape_loop_last:
  assumes "fetch (s_calls st) (s_next_max_id st) = Inr (JDict kvs)" and "page_ok kvs"
    and "truthy (s_more_available st)"
    and "\<not> cap_reached mp (length (s_all_posts st))"
    and "\<not> truthy (page_cursor kvs) \<or> \<not> truthy (page_more kvs)
         \<or> cap_reached mp (length (s_all_posts st) + length (page_posts L uname kvs))"
  shows "scrape_loop L fetch uname mp (Suc fuel) st = Some (absorb L uname st kvs)"
proof -
  have lb: "loop_body L fetch uname st =
      (if truthy (page_cursor kvs) then Continue else Break) (absorb L uname st kvs)"
    using loop_body_ok[of fetch st kvs L uname] assms(1,2) by simp
  show ?thesis
  proof (cases "truthy (page_cursor kvs)")
    case False
    then show ?thesis using assms(3,4) lb by simp
  next
    case True
    with assms(5) have stop: "\<not> truthy (s_more_available (absorb L uname st kvs))
        \<or> cap_reached mp (length (s_all_posts (absorb L uname st kvs)))"
      by auto
    then have "scrape_loop L fetch uname mp fuel (absorb L uname st kvs)
        = Some (absorb L uname st kvs)"
      by (cases fuel) auto
    then show ?thesis using True assms(3,4) lb by simp
  qed
qed


lemma all_page_posts_snoc:
  "all_page_posts L uname (pre @ [kvs]) = all_page_posts L uname pre @ page_posts L uname kvs"
  by (simp add: all_page_posts_def)

lemma cap_before_last:
  assumes "\<not> cap_reached mp (length (all_page_posts L uname pages))"
  shows "\<not> cap_reached mp (length (all_page_posts L uname (butlast pages)))"
proof (cases "pages = []")
  case True
  then show ?thesis using assms by simp
next
  case False
  then have "pages = butlast pages @ [last pages]" by simp
  then have "length (all_page_posts L uname (butlast pages))
      \<le> length (all_page_posts L uname pages)"
    by (metis all_page_posts_snoc le_add1 length_append)
  then show ?thesis using assms cap_reached_mono by blast
qed

text \<open>
  The loop after a run of continuing pages: its state is the initial state with the
  pages taken in, provided the cap is not reached before the last of them.
\<close>

lemma scrape_loop_prefix:
  assumes "served fetch 0 JNull pages"
    and "\<forall>kvs\<in>set pages. page_ok kvs \<and> continuing kvs"
    and "\<not> cap_reached mp (length (all_page_posts L uname pages))"
  shows "scrape_loop L fetch uname mp (length pages + fuel) (initial_state p) =
           scrape_loop L fetch uname mp fuel (foldl (absorb L uname) (initial_state p) pages)"
  using assms(1,2) cap_before_last[OF assms(3)]
  by (intro scrape_loop_absorb) (simp_all add: initial_state_def)

lemma replay_initial:
  "s_all_posts (foldl (absorb L uname) (initial_state p) pages) = all_page_posts L uname pages"
  "s_errors (foldl (absorb L uname) (initial_state p) pages) = []"
  "s_calls (foldl (absorb L uname) (initial_state p) pages) = length pages"
  "s_next_max_id (foldl (absorb L uname) (initial_state p) pages) =
     (if pages = [] then JNull else page_cursor (last pages))"
  "s_more_available (foldl (absorb L uname) (initial_state p) pages) =
     (if pages = [] then JBool True else page_more (last pages))"
  by (simp_all add: replay_fields initial_state_def)

lemma replay_more_truthy:
  assumes "\<forall>kvs\<in>set pages. page_ok kvs \<and> continuing kvs"
  shows "truthy (s_more_available (foldl (absorb L uname) (initial_state p) pages))"
proof (cases "pages = []")
  case True
  then show ?thesis by (simp add: initial_state_def)
next
  case False
  then have "continuing (last pages)" using assms by simp
  then show ?thesis using False by (simp add: replay_initial continuing_def)
qed


lemma trim_posts_cap:
  "0 < K \<Longrightarrow> K \<le> int (length xs) \<Longrightarrow> trim_posts (Some K) xs = take (nat K) xs"
  by (auto simp: trim_posts_def py_prefix_def)


text \<open>The last page taken in: by the cap, by a missing cursor, or by the flag.\<close>

lemma scrape_full_complete:
  assumes "served fetch 0 JNull (pre @ [kvs])"
    and "\<forall>x\<in>set pre. page_ok x \<and> continuing x" and "page_ok kvs"
    and "\<not> cap_reached (effective_max_posts cfg max_posts)
           (length (all_page_posts L uname pre))"
    and "\<not> truthy (page_cursor kvs) \<or> \<not> truthy (page_more kvs)
         \<or> cap_reached (effective_max_posts cfg max_posts)
             (length (all_page_posts L uname (pre @ [kvs])))"
    and "length pre < fuel"
  shows "scrape_full L cfg (Inr p) fetch uname max_posts fuel =
     Some (Inr (\<lparr>profile = s_profile (foldl (absorb L uname) (initial_state p) (pre @ [kvs])),
                 posts = trim_posts (effective_max_posts cfg max_posts)
                           (all_page_posts L uname (pre @ [kvs])),
                 total_posts_scraped =
                   length (trim_posts (effective_max_posts cfg max_posts)
                             (all_page_posts L uname (pre @ [kvs]))),
                 has_more_posts = (truthy (page_more kvs) \<and> truthy (page_cursor kvs)),
                 errors = []\<rparr>,
                Suc (length pre)))"
proof -
  let ?mp = "effective_max_posts cfg max_posts"
  let ?st = "foldl (absorb L uname) (initial_state p) pre"
  from assms(6) obtain f where fuel: "fuel = length pre + Suc f"
    by (metis add_Suc_right less_iff_Suc_add)
  have sv: "served fetch n c (xs @ [y]) \<longleftrightarrow>
      served fetch n c xs \<and> fetch (n + length xs) (if xs = [] then c else page_cursor (last xs))
        = Inr (JDict y)" for n c xs y
    by (induction xs arbitrary: n c) auto
  from assms(1) have s1: "served fetch 0 JNull pre"
    and s2: "fetch (length pre) (if pre = [] then JNull else page_cursor (last pre)) = Inr (JDict kvs)"
    by (simp_all add: sv)
  have "scrape_loop L fetch uname ?mp fuel (initial_state p) =
      scrape_loop L fetch uname ?mp (Suc f) ?st"
    unfolding fuel using s1 assms(2,4) by (rule scrape_loop_prefix)
  also have "\<dots> = Some (absorb L uname ?st kvs)"
    using s2 assms(3,4,5) replay_more_truthy[OF assms(2)]
    by (intro scrape_loop_last) (simp_all add: replay_initial all_page_posts_snoc)
  finally have loop: "scrape_loop L fetch uname ?mp fuel (initial_state p) =
      Some (foldl (absorb L uname) (initial_state p) (pre @ [kvs]))" by simp
  from assms(3) obtain b where b: "page_more kvs = JBool b"
    by (auto simp: page_ok_def split: json.splits)
  show ?thesis
    using b
    by (simp add: scrape_full_def loop Let_def replay_initial py_and_def v_bool_def
        all_page_posts_snoc)
qed

lemma sample_item_parses:
  "\<exists>p. parse_feed_item sample_lib (sample_item i c pr) u = Inr p"
  by (simp add: item_defs)

lemma parse_items_sample_length:
  "length (parse_items sample_lib u (map (\<lambda>i. sample_item i c pr) ids)) = length ids"
proof (induction ids)
  case Nil
  then show ?case by simp
next
  case (Cons i ids)
  from sample_item_parses[of i c pr u] obtain p where
    "parse_feed_item sample_lib (sample_item i c pr) u = Inr p" by blast
  with Cons show ?case by simp
qed

lemma sample_page_facts:
  "length (page_posts sample_lib u (sample_page ids cur m)) = length ids"
  "page_ok (sample_page ids cur m)"
  "page_cursor (sample_page ids cur m) = cur"
  "page_more (sample_page ids cur m) = JBool m"
  by (simp_all add: page_posts_def page_ok_def page_cursor_def page_more_def sample_page_def
      dget_def parse_items_sample_length)

lemma sample_pages_facts:
  "length (page_posts sample_lib u page1) = 12"
  "length (page_posts sample_lib u page2) = 12"
  "length (page_posts sample_lib u page3) = 6"
  "page_ok page1" "page_ok page2" "page_ok page3"
  "continuing page1" "continuing page2"
  "page_cursor page1 = JStr ''C1''" "page_cursor page2 = JStr ''C2''" "page_cursor page3 = JNull"
  "page_more page1 = JBool True" "page_more page2 = JBool True" "page_more page3 = JBool False"
  by (simp_all add: page1_def page2_def page3_def sample_page_facts continuing_def)




text \<open>
  C5. For a full scrape capped at K posts (K > 0), pagination stops after the first
  page that brings the accumulated total to K or more, and the result contains exactly
  the first K posts: the page fetched over the cap is truncated. An uncapped scrape
  that takes in pages until one comes without a cursor returns all their posts; for
  pages of 12, 12 and 6 items these are 30 posts, and capped at 20 the scrape stops
  after page 2 with 20 posts.
\<close>

theorem capped_scrape_truncates:
  "(served fetch 0 JNull (pre @ [kvs]) \<and> (\<forall>x\<in>set pre. page_ok x \<and> continuing x)
      \<and> page_ok kvs \<and> 0 < K \<and> int (length (all_page_posts L uname pre)) < K
      \<and> K \<le> int (length (all_page_posts L uname (pre @ [kvs]))) \<and> length pre < fuel
    \<longrightarrow> (\<exists>r. scrape_full L cfg (Inr p) fetch uname (Some K) fuel
                 = Some (Inr (r, Suc (length pre)))
             \<and> posts r = take (nat K) (all_page_posts L uname (pre @ [kvs]))
             \<and> int (length (posts r)) = K \<and> errors r = []
             \<and> has_more_posts r = (truthy (page_more kvs) \<and> truthy (page_cursor kvs))))
   \<and> (served fetch 0 JNull (pre @ [kvs]) \<and> (\<forall>x\<in>set pre. page_ok x \<and> continuing x)
      \<and> page_ok kvs \<and> \<not> truthy (page_cursor kvs)
      \<and> effective_max_posts cfg max_posts = None \<and> length pre < fuel
    \<longrightarrow> (\<exists>r. scrape_full L cfg (Inr p) fetch uname max_posts fuel
                 = Some (Inr (r, Suc (length pre)))
             \<and> posts r = all_page_posts L uname (pre @ [kvs])
             \<and> errors r = [] \<and> \<not> has_more_posts r))"
proof (intro conjI impI)
  assume h: "served fetch 0 JNull (pre @ [kvs]) \<and> (\<forall>x\<in>set pre. page_ok x \<and> continuing x)
      \<and> page_ok kvs \<and> 0 < K \<and> int (length (all_page_posts L uname pre)) < K
      \<and> K \<le> int (length (all_page_posts L uname (pre @ [kvs]))) \<and> length pre < fuel"
  have e: "effective_max_posts cfg (Some K) = Some K" by (simp add: effective_max_posts_def)
  have "scrape_full L cfg (Inr p) fetch uname (Some K) fuel =
     Some (Inr (\<lparr>profile = s_profile (foldl (absorb L uname) (initial_state p) (pre @ [kvs])),
                 posts = trim_posts (effective_max_posts cfg (Some K))
                           (all_page_posts L uname (pre @ [kvs])),
                 total_posts_scraped =
                   length (trim_posts (effective_max_posts cfg (Some K))
                             (all_page_posts L uname (pre @ [kvs]))),
                 has_more_posts = (truthy (page_more kvs) \<and> truthy (page_cursor kvs)),
                 errors = []\<rparr>,
                Suc (length pre)))"
    using h by (intro scrape_full_complete) (simp_all add: e cap_reached_def)
  moreover have "trim_posts (effective_max_posts cfg (Some K))
      (all_page_posts L uname (pre @ [kvs])) = take (nat K) (all_page_posts L uname (pre @ [kvs]))"
    using h by (simp add: e trim_posts_cap)
  moreover have "int (length (take (nat K) (all_page_posts L uname (pre @ [kvs])))) = K"
  proof -
    from h have "nat K \<le> length (all_page_posts L uname (pre @ [kvs]))" and "0 < K"
      by linarith+
    then show ?thesis by (simp add: min_absorb2)
  qed
  ultimately show "\<exists>r. scrape_full L cfg (Inr p) fetch uname (Some K) fuel
                 = Some (Inr (r, Suc (length pre)))
             \<and> posts r = take (nat K) (all_page_posts L uname (pre @ [kvs]))
             \<and> int (length (posts r)) = K \<and> errors r = []
             \<and> has_more_posts r = (truthy (page_more kvs) \<and> truthy (page_cursor kvs))"
    by simp
next
  assume h: "served fetch 0 JNull (pre @ [kvs]) \<and> (\<forall>x\<in>set pre. page_ok x \<and> continuing x)
      \<and> page_ok kvs \<and> \<not> truthy (page_cursor kvs)
      \<and> effective_max_posts cfg max_posts = None \<and> length pre < fuel"
  have "scrape_full L cfg (Inr p) fetch uname max_posts fuel =
     Some (Inr (\<lparr>profile = s_profile (foldl (absorb L uname) (initial_state p) (pre @ [kvs])),
                 posts = trim_posts (effective_max_posts cfg max_posts)
                           (all_page_posts L uname (pre @ [kvs])),
                 total_posts_scraped =
                   length (trim_posts (effective_max_posts cfg max_posts)
                             (all_page_posts L uname (pre @ [kvs]))),
                 has_more_posts = (truthy (page_more kvs) \<and> truthy (page_cursor kvs)),
                 errors = []\<rparr>,
                Suc (length pre)))"
    using h by (intro scrape_full_complete) (simp_all add: cap_reached_def)
  then show "\<exists>r. scrape_full L cfg (Inr p) fetch uname max_posts fuel
                 = Some (Inr (r, Suc (length pre)))
             \<and> posts r = all_page_posts L uname (pre @ [kvs])
             \<and> errors r = [] \<and> \<not> has_more_posts r"
    using h by (simp add: trim_posts_def)
qed

theorem capped_scrape_truncates_witness:
  "summary (scrape_full sample_lib None (Inr sample_profile) sample_feed ''natgeo'' (Some 20) 5)
     = Some (20, [], True, 2)
   \<and> summary (scrape_full sample_lib None (Inr sample_profile) sample_feed ''natgeo'' None 5)
     = Some (30, [], False, 3)"
proof -
  have c: "\<exists>r. scrape_full sample_lib None (Inr sample_profile) sample_feed ''natgeo''
                 (Some 20) 5 = Some (Inr (r, Suc (length [page1])))
             \<and> posts r = take (nat 20) (all_page_posts sample_lib ''natgeo'' ([page1] @ [page2]))
             \<and> int (length (posts r)) = 20 \<and> errors r = []
             \<and> has_more_posts r = (truthy (page_more page2) \<and> truthy (page_cursor page2))"
    using capped_scrape_truncates
      [of sample_feed "[page1]" page2 20 sample_lib "''natgeo''" 5 None sample_profile None]
    by (simp add: sample_feed_def sample_pages_facts all_page_posts_def)
  have u: "\<exists>r. scrape_full sample_lib None (Inr sample_profile) sample_feed ''natgeo''
                 None 5 = Some (Inr (r, Suc (length [page1, page2])))
             \<and> posts r = all_page_posts sample_lib ''natgeo'' ([page1, page2] @ [page3])
             \<and> errors r = [] \<and> \<not> has_more_posts r"
    using capped_scrape_truncates
      [of sample_feed "[page1, page2]" page3 20 sample_lib "''natgeo''" 5 None sample_profile None]
    by (simp add: sample_feed_def sample_pages_facts effective_max_posts_def)
  from c obtain r where r: "scrape_full sample_lib None (Inr sample_profile) sample_feed
      ''natgeo'' (Some 20) 5 = Some (Inr (r, Suc (length [page1])))"
    and lr: "int (length (posts r)) = 20" and er: "errors r = []"
    and mr: "has_more_posts r = (truthy (page_more page2) \<and> truthy (page_cursor page2))"
    by blast
  from u obtain q where q: "scrape_full sample_lib None (Inr sample_profile) sample_feed
      ''natgeo'' None 5 = Some (Inr (q, Suc (length [page1, page2])))"
    and pq: "posts q = all_page_posts sample_lib ''natgeo'' ([page1, page2] @ [page3])"
    and eq: "errors q = []" and mq: "\<not> has_more_posts q"
    by blast
  have "length (posts r) = 20" using lr by linarith
  moreover have "length (posts q) = 30"
    by (simp add: pq all_page_posts_def sample_pages_facts)
  ultimately show ?thesis
    by (simp add: summary_def r q er eq mr mq sample_pages_facts)
qed

end
